theory Spec2Isabelle
  imports Complex_Main "HOL-Library.Log_Nat" "HOL-Library.Sublist"
begin

section \<open>Actor-critic policy: \<^verbatim>\<open>playground/policies/actor_critic.py\<close>\<close>

text \<open>
  The development follows the Python module: the data (\<^verbatim>\<open>Record\<close>, the replay memory),
  the graph that \<^verbatim>\<open>build\<close> constructs, action selection (\<^verbatim>\<open>act\<close>) and the training
  loop (\<^verbatim>\<open>train\<close>). Mutation is explicit state passing, exceptions are values of
  \<open>error\<close>, a loop that may run forever returns \<open>None\<close>, and random draws are read
  from an explicit stream.
\<close>

subsection \<open>Python floats\<close>

text \<open>
  A Python float is an IEEE 754 binary64 number. It is modelled by the real number it
  denotes; an arithmetic operation is the exact operation followed by a rounding
  \<open>fl\<close>. Two roundings are used: \<open>exact\<close> (no rounding: arithmetic over the reals)
  and \<open>binary64\<close> (round to nearest, ties to even, 53 significant bits, gradual
  underflow below \<open>2 ^ -1022\<close>; overflow to infinity and NaN are outside the model).
\<close>

type_synonym rounding = "real \<Rightarrow> real"

definition exact :: rounding where
  "exact x = x"

definition pow2 :: "int \<Rightarrow> real" where
  "pow2 e = (if 0 \<le> e then 2 ^ nat e else 1 / 2 ^ nat (- e))"

text \<open>\<open>ilog2 a\<close> is the exponent \<open>k\<close> with \<open>2 ^ k \<le> a < 2 ^ (k + 1)\<close>, for \<open>a > 0\<close>.\<close>

definition ilog2 :: "real \<Rightarrow> int" where
  "ilog2 a = (if 1 \<le> a then bitlen \<lfloor>a\<rfloor> - 1 else - bitlen (\<lceil>1 / a\<rceil> - 1))"

definition round_half_even :: "real \<Rightarrow> int" where
  "round_half_even x =
     (let f = \<lfloor>x\<rfloor>; d = x - of_int f
      in if d < 1 / 2 then f else if 1 / 2 < d then f + 1 else if even f then f else f + 1)"

definition binary64 :: rounding where
  "binary64 x =
     (if x = 0 then 0
      else let e = max (ilog2 \<bar>x\<bar> - 52) (- 1074)
           in of_int (round_half_even (x / pow2 e)) * pow2 e)"

definition fadd :: "rounding \<Rightarrow> real \<Rightarrow> real \<Rightarrow> real" where
  "fadd rnd x y = rnd (x + y)"

definition fsub :: "rounding \<Rightarrow> real \<Rightarrow> real \<Rightarrow> real" where
  "fsub rnd x y = rnd (x - y)"

definition fmul :: "rounding \<Rightarrow> real \<Rightarrow> real \<Rightarrow> real" where
  "fmul rnd x y = rnd (x * y)"

subsection \<open>Errors\<close>

datatype error =
    ZeroDivisionError
  | AssertionError
  | ValueError
  | InsufficientDataError

subsection \<open>Observations and records\<close>

text \<open>
  A numpy array is its shape and its elements in row-major order. \<^verbatim>\<open>ob.flatten()\<close>
  keeps the elements and makes the shape one-dimensional.
\<close>

datatype ndarray = NDArray (shape: "nat list") (elems: "real list")

definition flatten :: "ndarray \<Rightarrow> ndarray" where
  "flatten x = NDArray [length (elems x)] (elems x)"

text \<open>\<^verbatim>\<open>Record = namedtuple('Record', ['s', 'a', 'r', 'td_target'])\<close>\<close>

datatype Record = Record (s_of: ndarray) (a_of: int) (r_of: real) (td_target_of: real)

subsection \<open>ReplayMemory\<close>

text \<open>
  Modelled from the spec: the class \<^verbatim>\<open>ReplayMemory\<close> of \<^verbatim>\<open>playground.policies.base\<close>
  is imported by the module and is not among the sources. The spec fixes its contract:
  \<^verbatim>\<open>add(record)\<close> appends one record and always succeeds; \<^verbatim>\<open>size\<close> is the number of
  unconsumed records; \<^verbatim>\<open>pop(n)\<close> requires \<^verbatim>\<open>size >= n\<close> and fails with
  \<^verbatim>\<open>InsufficientDataError\<close> otherwise, returns the \<open>n\<close> earliest-inserted records
  reorganised into one array per field, and removes them from the buffer.
\<close>

type_synonym ReplayMemory = "Record list"

record batch =
  batch_s :: "ndarray list"
  batch_a :: "int list"
  batch_r :: "real list"
  batch_td_target :: "real list"

text \<open>Modelled from the spec: \<^verbatim>\<open>ReplayMemory(tuple_class=Record)\<close> starts empty.\<close>

definition mem_empty :: ReplayMemory where
  "mem_empty = []"

text \<open>Modelled from the spec: \<^verbatim>\<open>add(record)\<close>.\<close>

definition mem_add :: "Record \<Rightarrow> ReplayMemory \<Rightarrow> ReplayMemory" where
  "mem_add rec mem = mem @ [rec]"

text \<open>Modelled from the spec: \<^verbatim>\<open>size\<close>.\<close>

definition mem_size :: "ReplayMemory \<Rightarrow> nat" where
  "mem_size mem = length mem"

text \<open>Modelled from the spec: the column-major form of a list of records.\<close>

definition reformat :: "Record list \<Rightarrow> batch" where
  "reformat recs =
     \<lparr>batch_s = map s_of recs, batch_a = map a_of recs,
      batch_r = map r_of recs, batch_td_target = map td_target_of recs\<rparr>"

text \<open>Modelled from the spec: \<^verbatim>\<open>pop(n)\<close>.\<close>

definition mem_pop :: "nat \<Rightarrow> ReplayMemory \<Rightarrow> error + (batch \<times> ReplayMemory)" where
  "mem_pop n mem =
     (if n \<le> mem_size mem then Inr (reformat (take n mem), drop n mem)
      else Inl InsufficientDataError)"

subsection \<open>The policy object and its collaborators\<close>

text \<open>
  The constructor arguments of \<^verbatim>\<open>ActorCriticPolicy\<close> are fields of \<open>policy\<close>, together
  with the collaborators the module only calls: the environment (\<^verbatim>\<open>reset\<close>, \<^verbatim>\<open>step\<close>,
  \<^verbatim>\<open>action_space.sample\<close>, \<^verbatim>\<open>action_space.n\<close>, the shape of the arrays of
  \<^verbatim>\<open>observation_space\<close>), over its own state \<open>'e\<close>; the
  networks built by \<^verbatim>\<open>mlp\<close>, read under the values \<open>'p\<close> that the TensorFlow session
  holds for the variables; and the effect of running \<^verbatim>\<open>train_ops\<close> on those values.
  \<open>fl\<close> is the rounding of Python's float arithmetic.
\<close>

text \<open>The \<^verbatim>\<open>feed_dict\<close> of the training step.\<close>

record feed =
  feed_learning_rate_c :: real
  feed_learning_rate_a :: real
  feed_states :: "ndarray list"
  feed_actions :: "int list"
  feed_rewards :: "real list"
  feed_td_targets :: "real list"
  feed_ep_reward :: real

text \<open>A scalar parameter of a network: the name of a variable and an index into it.\<close>

type_synonym param = "string \<times> nat"

record ('e, 'p) policy =
  training :: bool
  gamma :: real
  lr_a :: real
  lr_a_decay :: real
  lr_c :: real
  lr_c_decay :: real
  batch_size :: nat
  layer_sizes :: "nat list"
  grad_clip_norm :: "real option"
  fl :: rounding
  env_reset :: "'e \<Rightarrow> ndarray \<times> 'e"
  env_step :: "'e \<Rightarrow> int \<Rightarrow> (ndarray \<times> real \<times> bool) \<times> 'e"
  action_space_sample :: "'e \<Rightarrow> int \<times> 'e"
  action_space_n :: nat
  observation_space_shape :: "nat list"
  net_value :: "'p \<Rightarrow> string \<Rightarrow> nat \<Rightarrow> ndarray \<Rightarrow> real"
  net_deriv :: "'p \<Rightarrow> string \<Rightarrow> param \<Rightarrow> nat \<Rightarrow> ndarray \<Rightarrow> real"
  net_var_suffixes :: "string \<Rightarrow> string list"
  run_train_ops :: "'p \<Rightarrow> feed \<Rightarrow> 'p"

text \<open>
  The calls made to the collaborators are logged in the order they happen, so that what
  is evaluated, stepped and trained on can be read off a run.
\<close>

datatype call =
    EnvReset
  | EnvSample
  | EnvStep int
  | ActorEval "ndarray list"
  | CriticEval "ndarray list"
  | TrainOps feed

text \<open>
  The mutable state: the environment, the session's variable values, numpy's random
  stream (the uniform draws from \<open>[0, 1)\<close> still to come), \<^verbatim>\<open>self.memory\<close>, the call log,
  and the local variables of \<^verbatim>\<open>train\<close> (\<open>cur_lr_c\<close> and \<open>cur_lr_a\<close> are the locals
  \<^verbatim>\<open>lr_c\<close> and \<^verbatim>\<open>lr_a\<close>; \<open>done_flag\<close> is \<^verbatim>\<open>done\<close>).
\<close>

record ('e, 'p) state =
  env :: 'e
  params :: 'p
  rng :: "nat \<Rightarrow> real"
  memory :: ReplayMemory
  calls :: "call list"
  step :: nat
  episode_reward :: real
  reward_history :: "real list"
  cur_lr_c :: real
  cur_lr_a :: real
  eps :: real
  ob :: ndarray
  done_flag :: bool
  obs :: "ndarray list"
  actions :: "int list"
  rewards :: "real list"
  td_targets :: "real list"

definition act_size :: "('e, 'p) policy \<Rightarrow> nat" where
  "act_size c = action_space_n c"

text \<open>
  \<^verbatim>\<open>obs_size\<close> is \<^verbatim>\<open>self.env.observation_space.sample().flatten().shape[0]\<close>: the number
  of elements of an array of the observation space.
\<close>

definition obs_size :: "('e, 'p) policy \<Rightarrow> nat" where
  "obs_size c = prod_list (observation_space_shape c)"

definition obs_to_inputs :: "ndarray \<Rightarrow> ndarray" where
  "obs_to_inputs x = flatten x"

text \<open>
  A feed of \<^verbatim>\<open>self.states\<close>. The placeholder has the shape \<^verbatim>\<open>(None, self.obs_size)\<close>,
  and TensorFlow raises \<^verbatim>\<open>ValueError\<close> for a value of another shape: the list fed must
  not be empty and each of its arrays must have the shape \<^verbatim>\<open>(obs_size,)\<close>.
\<close>

definition feedable :: "('e, 'p) policy \<Rightarrow> ndarray list \<Rightarrow> bool" where
  "feedable c xs = (xs \<noteq> [] \<and> list_all (\<lambda>x. shape x = [obs_size c]) xs)"

subsection \<open>Networks\<close>

text \<open>
  Modelled from the spec: \<^verbatim>\<open>mlp\<close> of \<^verbatim>\<open>playground.utils.tf_ops\<close> is not among the
  sources. The spec describes it as a pure function from an input vector and a list of
  layer widths to an output vector of the final layer's width, with no constraint on
  the architecture. \<open>net_value c p name j x\<close> is the value of output unit \<open>j\<close> of
  the network built under the name \<open>name\<close>, on input \<open>x\<close>, under the variable
  values \<open>p\<close>.
\<close>

definition mlp :: "('e, 'p) policy \<Rightarrow> 'p \<Rightarrow> string \<Rightarrow> nat list \<Rightarrow> ndarray \<Rightarrow> real list" where
  "mlp c p name sizes x =
     (if sizes = [] then [] else map (\<lambda>j. net_value c p name j x) [0..<last sizes])"

text \<open>
  \<^verbatim>\<open>self.actor = mlp(self.states, self.layer_sizes + [self.act_size], name='actor')\<close> and
  \<^verbatim>\<open>self.critic = mlp(self.states, self.layer_sizes + [1], name='critic')\<close>, for one
  row of \<^verbatim>\<open>self.states\<close>.
\<close>

definition actor :: "('e, 'p) policy \<Rightarrow> 'p \<Rightarrow> ndarray \<Rightarrow> real list" where
  "actor c p x = mlp c p ''actor'' (layer_sizes c @ [act_size c]) x"

definition critic :: "('e, 'p) policy \<Rightarrow> 'p \<Rightarrow> ndarray \<Rightarrow> real list" where
  "critic c p x = mlp c p ''critic'' (layer_sizes c @ [1]) x"

definition softmax :: "real list \<Rightarrow> real list" where
  "softmax xs = map (\<lambda>x. exp x / sum_list (map exp xs)) xs"

definition actor_proba :: "('e, 'p) policy \<Rightarrow> 'p \<Rightarrow> ndarray \<Rightarrow> real list" where
  "actor_proba c p x = softmax (actor c p x)"

subsection \<open>Random draws\<close>

text \<open>\<^verbatim>\<open>np.random.random()\<close>: the next uniform draw.\<close>

definition random :: "('e, 'p) state \<Rightarrow> real \<times> ('e, 'p) state" where
  "random st = (rng st 0, st\<lparr>rng := \<lambda>i. rng st (Suc i)\<rparr>)"

fun cumsum :: "real \<Rightarrow> real list \<Rightarrow> real list" where
  "cumsum acc [] = []"
| "cumsum acc (x # xs) = (acc + x) # cumsum (acc + x) xs"

text \<open>
  \<^verbatim>\<open>np.random.choice(n, p=probs)\<close> draws one uniform number \<open>u\<close> and returns the
  position at which \<open>u\<close> falls in the normalised cumulative sums of \<open>probs\<close> (numpy
  searches them from the right). numpy raises \<^verbatim>\<open>ValueError\<close> when \<open>n\<close> is zero or
  \<open>probs\<close> has another length than \<open>n\<close>.
\<close>

definition choice_index :: "real list \<Rightarrow> real \<Rightarrow> nat" where
  "choice_index probs u =
     (let cdf = cumsum 0 probs
      in length (takeWhile (\<lambda>c. c / last cdf \<le> u) cdf))"

definition choice ::
  "nat \<Rightarrow> real list \<Rightarrow> ('e, 'p) state \<Rightarrow> error + (int \<times> ('e, 'p) state)" where
  "choice n probs st =
     (if n = 0 \<or> length probs \<noteq> n then Inl ValueError
      else let (u, st') = random st in Inr (int (choice_index probs u), st'))"

subsection \<open>Action selection: \<^verbatim>\<open>act\<close>\<close>

text \<open>
  The inference path of \<^verbatim>\<open>act\<close>: \<^verbatim>\<open>self.actor_proba.eval({self.states: [state]})[0]\<close>,
  which feeds \<^verbatim>\<open>[state]\<close> and raises \<^verbatim>\<open>ValueError\<close> when \<^verbatim>\<open>state\<close> is not of the
  shape \<^verbatim>\<open>(obs_size,)\<close>, followed by \<^verbatim>\<open>np.random.choice(self.act_size, p=action_proba)\<close>.
\<close>

definition act_infer ::
  "('e, 'p) policy \<Rightarrow> ('e, 'p) state \<Rightarrow> ndarray \<Rightarrow> error + (int \<times> ('e, 'p) state)" where
  "act_infer c st x =
     (if feedable c [x] then
        (let action_proba = actor_proba c (params st) x;
             st1 = st\<lparr>calls := calls st @ [ActorEval [x]]\<rparr>
         in choice (act_size c) action_proba st1)
      else Inl ValueError)"

text \<open>The exploration path: \<^verbatim>\<open>self.env.action_space.sample()\<close>.\<close>

definition act_explore :: "('e, 'p) policy \<Rightarrow> ('e, 'p) state \<Rightarrow> int \<times> ('e, 'p) state" where
  "act_explore c st =
     (let (a, e') = action_space_sample c (env st)
      in (a, st\<lparr>env := e', calls := calls st @ [EnvSample]\<rparr>))"

text \<open>
  \<^verbatim>\<open>if self.training and np.random.random() < epsilon\<close>: Python's \<^verbatim>\<open>and\<close> does not
  evaluate its right operand when the left one is false, so no draw is consumed outside
  training mode.
\<close>

definition act ::
  "('e, 'p) policy \<Rightarrow> ('e, 'p) state \<Rightarrow> ndarray \<Rightarrow> real \<Rightarrow> error + (int \<times> ('e, 'p) state)" where
  "act c st x epsilon =
     (if training c then
        (let (u, st1) = random st
         in if u < epsilon then Inr (act_explore c st1) else act_infer c st1 x)
      else act_infer c st x)"

text \<open>The default of the parameter: \<^verbatim>\<open>def act(self, state, epsilon=0.1)\<close>.\<close>

definition default_epsilon :: "('e, 'p) policy \<Rightarrow> real" where
  "default_epsilon c = fl c (1 / 10)"

subsection \<open>The training loop: \<^verbatim>\<open>train\<close>\<close>

text \<open>
  One pass through the body of \<^verbatim>\<open>while not done\<close>, up to and including
  \<^verbatim>\<open>ob = ob_next\<close>: choose the action, step the environment, extend the local lists,
  evaluate the critic on the feed \<^verbatim>\<open>[ob_next]\<close> and take \<^verbatim>\<open>[0][0]\<close> of the result,
  compute the target and add the record to the memory. The evaluation of the critic
  raises \<^verbatim>\<open>ValueError\<close> when \<^verbatim>\<open>ob_next\<close> is not of the shape \<^verbatim>\<open>(obs_size,)\<close>; the
  pass ends there, before the record is added.
\<close>

definition next_value :: "('e, 'p) policy \<Rightarrow> 'p \<Rightarrow> ndarray \<Rightarrow> real" where
  "next_value c p ob_next = map (critic c p) [ob_next] ! 0 ! 0"

definition generate :: "('e, 'p) policy \<Rightarrow> ('e, 'p) state \<Rightarrow> error + ('e, 'p) state" where
  "generate c st =
     (case act c st (ob st) (eps st) of
        Inl e \<Rightarrow> Inl e
      | Inr (a, st1) \<Rightarrow>
          (let ((ob_next, r, d), e') = env_step c (env st1) a;
               st2 = st1\<lparr>env := e', calls := calls st1 @ [EnvStep a],
                         step := step st1 + 1,
                         episode_reward := fadd (fl c) (episode_reward st1) r,
                         obs := obs st1 @ [obs_to_inputs (ob st1)],
                         actions := actions st1 @ [a],
                         rewards := rewards st1 @ [r]\<rparr>
           in if feedable c [ob_next] then
                (let v = next_value c (params st2) ob_next;
                     st3 = st2\<lparr>calls := calls st2 @ [CriticEval [ob_next]]\<rparr>;
                     td_target = fadd (fl c) r (fmul (fl c) (gamma c) v)
                 in Inr (st3\<lparr>td_targets := td_targets st3 @ [td_target],
                             memory := mem_add (Record (ob st3) a r td_target) (memory st3),
                             ob := ob_next, done_flag := d\<rparr>))
              else Inl ValueError))"

text \<open>
  The \<^verbatim>\<open>feed_dict\<close> of one training step; \<^verbatim>\<open>reward_history[-1] if reward_history else 0.0\<close>
  is the last element or zero.
\<close>

definition feed_dict :: "('e, 'p) state \<Rightarrow> batch \<Rightarrow> feed" where
  "feed_dict st b =
     \<lparr>feed_learning_rate_c = cur_lr_c st,
      feed_learning_rate_a = cur_lr_a st,
      feed_states = batch_s b,
      feed_actions = batch_a b,
      feed_rewards = batch_r b,
      feed_td_targets = batch_td_target b,
      feed_ep_reward = (if reward_history st \<noteq> [] then last (reward_history st) else 0)\<rparr>"

text \<open>
  \<^verbatim>\<open>while self.memory.size >= self.batch_size\<close>: pop a batch and run the training ops on
  it, feeding the column \<^verbatim>\<open>batch['s']\<close> as \<^verbatim>\<open>self.states\<close>; \<^verbatim>\<open>sess.run\<close> raises
  \<^verbatim>\<open>ValueError\<close> when a state of the batch is not of the shape \<^verbatim>\<open>(obs_size,)\<close>.
\<close>

partial_function (option) drain ::
  "('e, 'p) policy \<Rightarrow> ('e, 'p) state \<Rightarrow> (error + ('e, 'p) state) option" where
  "drain c st =
     (if batch_size c \<le> mem_size (memory st) then
        (case mem_pop (batch_size c) (memory st) of
           Inl e \<Rightarrow> Some (Inl e)
         | Inr (b, mem') \<Rightarrow>
             if feedable c (batch_s b) then
               drain c (st\<lparr>memory := mem',
                            params := run_train_ops c (params st) (feed_dict st b),
                            calls := calls st @ [TrainOps (feed_dict st b)]\<rparr>)
             else Some (Inl ValueError))
      else Some (Inr st))"

text \<open>\<^verbatim>\<open>while not done\<close>: the body is \<open>generate\<close> followed by \<open>drain\<close>.\<close>

partial_function (option) step_loop ::
  "('e, 'p) policy \<Rightarrow> ('e, 'p) state \<Rightarrow> (error + ('e, 'p) state) option" where
  "step_loop c st =
     (if \<not> done_flag st then
        (case generate c st of
           Inl e \<Rightarrow> Some (Inl e)
         | Inr st1 \<Rightarrow>
             (case drain c st1 of
                None \<Rightarrow> None
              | Some (Inl e) \<Rightarrow> Some (Inl e)
              | Some (Inr st') \<Rightarrow> step_loop c st'))
      else Some (Inr st))"

text \<open>
  The head of the episode loop: \<^verbatim>\<open>ob = self.env.reset()\<close>, \<^verbatim>\<open>a = self.act(ob)\<close>,
  \<^verbatim>\<open>done = False\<close> and the four empty lists. The action returned by this call of
  \<^verbatim>\<open>act\<close> is assigned to \<^verbatim>\<open>a\<close>, which the loop body assigns again before reading it.
\<close>

definition episode_start :: "('e, 'p) policy \<Rightarrow> ('e, 'p) state \<Rightarrow> error + ('e, 'p) state" where
  "episode_start c st =
     (let (ob0, e') = env_reset c (env st);
          st1 = st\<lparr>env := e', calls := calls st @ [EnvReset], ob := ob0\<rparr>
      in case act c st1 (ob st1) (default_epsilon c) of
           Inl e \<Rightarrow> Inl e
         | Inr (a, st2) \<Rightarrow>
             Inr (st2\<lparr>done_flag := False, obs := [], actions := [], rewards := [],
                       td_targets := []\<rparr>))"

text \<open>
  The tail of the episode loop: the reward bookkeeping, the decay of the two learning
  rates and \<^verbatim>\<open>if eps > 0.01: eps -= eps_drop\<close>. The moving average
  \<^verbatim>\<open>reward_averaged\<close> and the progress report are only printed and plotted.
\<close>

definition eps_next :: "rounding \<Rightarrow> real \<Rightarrow> real \<Rightarrow> real" where
  "eps_next rnd eps_drop e = (if rnd (1 / 100) < e then fsub rnd e eps_drop else e)"

definition episode_end :: "('e, 'p) policy \<Rightarrow> real \<Rightarrow> ('e, 'p) state \<Rightarrow> ('e, 'p) state" where
  "episode_end c eps_drop st =
     st\<lparr>reward_history := reward_history st @ [episode_reward st],
        episode_reward := 0,
        cur_lr_c := fmul (fl c) (cur_lr_c st) (lr_c_decay c),
        cur_lr_a := fmul (fl c) (cur_lr_a st) (lr_a_decay c),
        eps := eps_next (fl c) eps_drop (eps st)\<rparr>"

definition episode ::
  "('e, 'p) policy \<Rightarrow> real \<Rightarrow> ('e, 'p) state \<Rightarrow> (error + ('e, 'p) state) option" where
  "episode c eps_drop st =
     (case episode_start c st of
        Inl e \<Rightarrow> Some (Inl e)
      | Inr st0 \<Rightarrow>
          (case step_loop c st0 of
             None \<Rightarrow> None
           | Some (Inl e) \<Rightarrow> Some (Inl e)
           | Some (Inr st') \<Rightarrow> Some (Inr (episode_end c eps_drop st'))))"

text \<open>\<^verbatim>\<open>for n_episode in range(n_episodes)\<close>.\<close>

fun episodes ::
  "('e, 'p) policy \<Rightarrow> real \<Rightarrow> nat \<Rightarrow> ('e, 'p) state \<Rightarrow> (error + ('e, 'p) state) option" where
  "episodes c eps_drop 0 st = Some (Inr st)"
| "episodes c eps_drop (Suc k) st =
     (case episode c eps_drop st of
        None \<Rightarrow> None
      | Some (Inl e) \<Rightarrow> Some (Inl e)
      | Some (Inr st') \<Rightarrow> episodes c eps_drop k st')"

text \<open>
  The schedule constants at the head of \<^verbatim>\<open>train\<close>: \<^verbatim>\<open>eps = .5\<close>,
  \<^verbatim>\<open>annealing_episodes = annealing_episodes or n_episodes\<close> (\<^verbatim>\<open>None\<close> and \<open>0\<close> both
  give \<^verbatim>\<open>n_episodes\<close>) and \<^verbatim>\<open>eps_drop = (eps - 0.01) / annealing_episodes\<close>, which
  raises \<^verbatim>\<open>ZeroDivisionError\<close> on a zero divisor.
\<close>

definition initial_eps :: "('e, 'p) policy \<Rightarrow> real" where
  "initial_eps c = fl c (1 / 2)"

definition annealing_or :: "int option \<Rightarrow> int \<Rightarrow> int" where
  "annealing_or annealing_episodes n_episodes =
     (case annealing_episodes of
        None \<Rightarrow> n_episodes
      | Some k \<Rightarrow> if k = 0 then n_episodes else k)"

definition eps_drop_of :: "('e, 'p) policy \<Rightarrow> int \<Rightarrow> int option \<Rightarrow> error + real" where
  "eps_drop_of c n_episodes annealing_episodes =
     (let k = annealing_or annealing_episodes n_episodes
      in if k = 0 then Inl ZeroDivisionError
         else Inr (fl c (fsub (fl c) (initial_eps c) (fl c (1 / 100)) / fl c (of_int k))))"

text \<open>
  \<^verbatim>\<open>train(n_episodes, annealing_episodes)\<close>; \<^verbatim>\<open>range\<close> of a negative number is empty.
  After the loop the model is saved and a report printed (\<^verbatim>\<open>np.max\<close> of an empty
  history raises \<^verbatim>\<open>ValueError\<close>); the learning curve is plotted by a collaborator.
\<close>

definition train ::
  "('e, 'p) policy \<Rightarrow> int \<Rightarrow> int option \<Rightarrow> ('e, 'p) state \<Rightarrow> (error + ('e, 'p) state) option" where
  "train c n_episodes annealing_episodes st =
     (case eps_drop_of c n_episodes annealing_episodes of
        Inl e \<Rightarrow> Some (Inl e)
      | Inr eps_drop \<Rightarrow>
          (case episodes c eps_drop (nat n_episodes)
                  (st\<lparr>step := 0, episode_reward := 0, reward_history := [],
                      cur_lr_c := lr_c c, cur_lr_a := lr_a c, eps := initial_eps c\<rparr>) of
             None \<Rightarrow> None
           | Some (Inl e) \<Rightarrow> Some (Inl e)
           | Some (Inr st') \<Rightarrow>
               if reward_history st' = [] then Some (Inl ValueError) else Some (Inr st')))"

subsection \<open>The graph: \<^verbatim>\<open>build\<close>\<close>

text \<open>
  TensorFlow differentiates the graph it is given. A tensor element is modelled as a
  dual number: its value, and its derivative with respect to one scalar parameter
  \<open>\<theta>\<close> as TensorFlow's gradient computes it, operation by operation.
  \<^verbatim>\<open>tf.stop_gradient\<close> passes the value on and blocks the derivative. Tensor arithmetic
  is exact here.
\<close>

type_synonym dual = "real \<times> real"

definition d_const :: "real \<Rightarrow> dual" where
  "d_const x = (x, 0)"

definition d_add :: "dual \<Rightarrow> dual \<Rightarrow> dual" where
  "d_add x y = (fst x + fst y, snd x + snd y)"

definition d_sub :: "dual \<Rightarrow> dual \<Rightarrow> dual" where
  "d_sub x y = (fst x - fst y, snd x - snd y)"

definition d_mul :: "dual \<Rightarrow> dual \<Rightarrow> dual" where
  "d_mul x y = (fst x * fst y, snd x * fst y + fst x * snd y)"

definition d_abs :: "dual \<Rightarrow> dual" where
  "d_abs x = (\<bar>fst x\<bar>, sgn (fst x) * snd x)"

definition d_square :: "dual \<Rightarrow> dual" where
  "d_square x = (fst x * fst x, 2 * fst x * snd x)"

definition d_exp :: "dual \<Rightarrow> dual" where
  "d_exp x = (exp (fst x), exp (fst x) * snd x)"

definition d_log :: "dual \<Rightarrow> dual" where
  "d_log x = (ln (fst x), snd x / fst x)"

definition stop_gradient :: "dual \<Rightarrow> dual" where
  "stop_gradient x = (fst x, 0)"

definition reduce_sum :: "dual list \<Rightarrow> dual" where
  "reduce_sum xs = foldr d_add xs (0, 0)"

definition reduce_mean :: "dual list \<Rightarrow> dual" where
  "reduce_mean xs =
     (fst (reduce_sum xs) / real (length xs), snd (reduce_sum xs) / real (length xs))"

text \<open>
  Modelled from the spec: the variables of a network. \<^verbatim>\<open>mlp(..., name=name)\<close> creates
  its variables inside the variable scope \<open>name\<close>, so their names start with
  \<open>name\<close> and a slash, and the output of the network depends on no other variable:
  its derivative with respect to a parameter of another variable is zero.
\<close>

definition mlp_vars :: "('e, 'p) policy \<Rightarrow> string \<Rightarrow> string list" where
  "mlp_vars c name = map (\<lambda>sfx. name @ ''/'' @ sfx) (net_var_suffixes c name)"

definition mlp_d ::
  "('e, 'p) policy \<Rightarrow> 'p \<Rightarrow> param \<Rightarrow> string \<Rightarrow> nat list \<Rightarrow> ndarray \<Rightarrow> dual list" where
  "mlp_d c p \<theta> name sizes x =
     (if sizes = [] then []
      else map (\<lambda>j. (net_value c p name j x,
                     if fst \<theta> \<in> set (mlp_vars c name) then net_deriv c p name \<theta> j x else 0))
             [0..<last sizes])"

definition actor_d :: "('e, 'p) policy \<Rightarrow> 'p \<Rightarrow> param \<Rightarrow> ndarray \<Rightarrow> dual list" where
  "actor_d c p \<theta> x = mlp_d c p \<theta> ''actor'' (layer_sizes c @ [act_size c]) x"

definition critic_d :: "('e, 'p) policy \<Rightarrow> 'p \<Rightarrow> param \<Rightarrow> ndarray \<Rightarrow> dual list" where
  "critic_d c p \<theta> x = mlp_d c p \<theta> ''critic'' (layer_sizes c @ [1]) x"

text \<open>
  \<^verbatim>\<open>tf.one_hot(self.actions, self.act_size, 1.0, 0.0)\<close>: a row of \<open>act_size\<close> entries;
  an index outside the range gives a row of zeros.
\<close>

definition one_hot :: "int \<Rightarrow> nat \<Rightarrow> dual list" where
  "one_hot a n = map (\<lambda>j. d_const (if int j = a then 1 else 0)) [0..<n]"

text \<open>
  The elementwise product of two rows with numpy's broadcasting: a row of width one is
  stretched to the width of the other. TensorFlow rejects other unequal widths when the
  graph is built (see \<open>build\<close>).
\<close>

definition broadcastable :: "nat \<Rightarrow> nat \<Rightarrow> bool" where
  "broadcastable m n = (m = n \<or> m = 1 \<or> n = 1)"

definition broadcast_mul :: "dual list \<Rightarrow> dual list \<Rightarrow> dual list" where
  "broadcast_mul xs ys =
     (if length xs = length ys then map2 d_mul xs ys
      else if length xs = 1 then map (d_mul (xs ! 0)) ys
      else map (\<lambda>x. d_mul x (ys ! 0)) xs)"

text \<open>
  \<^verbatim>\<open>pred_q = tf.reduce_sum(self.critic * action_ohe, reduction_indices=-1)\<close> and
  \<^verbatim>\<open>self.td_errors = tf.abs(self.td_targets - pred_q)\<close>, for one element of the batch.
\<close>

definition pred_q :: "('e, 'p) policy \<Rightarrow> 'p \<Rightarrow> param \<Rightarrow> ndarray \<Rightarrow> int \<Rightarrow> dual" where
  "pred_q c p \<theta> x a = reduce_sum (broadcast_mul (critic_d c p \<theta> x) (one_hot a (act_size c)))"

definition td_error :: "('e, 'p) policy \<Rightarrow> 'p \<Rightarrow> param \<Rightarrow> ndarray \<Rightarrow> int \<Rightarrow> real \<Rightarrow> dual" where
  "td_error c p \<theta> x a t = d_abs (d_sub (d_const t) (pred_q c p \<theta> x a))"

definition td_errors :: "('e, 'p) policy \<Rightarrow> 'p \<Rightarrow> param \<Rightarrow> feed \<Rightarrow> dual list" where
  "td_errors c p \<theta> f =
     map (\<lambda>(x, a, t). td_error c p \<theta> x a t)
       (zip (feed_states f) (zip (feed_actions f) (feed_td_targets f)))"

text \<open>\<^verbatim>\<open>self.loss_c = tf.reduce_mean(tf.square(self.td_errors))\<close>\<close>

definition loss_c :: "('e, 'p) policy \<Rightarrow> 'p \<Rightarrow> param \<Rightarrow> feed \<Rightarrow> dual" where
  "loss_c c p \<theta> f = reduce_mean (map d_square (td_errors c p \<theta> f))"

text \<open>
  \<^verbatim>\<open>tf.nn.sparse_softmax_cross_entropy_with_logits(logits, labels)\<close> for one row: the
  minus the logarithm of the softmax probability of the label. TensorFlow does not accept
  a label outside the range of the row (\<open>None\<close>).
\<close>

definition xent :: "dual list \<Rightarrow> int \<Rightarrow> dual option" where
  "xent logits a =
     (if 0 \<le> a \<and> nat a < length logits
      then Some (d_sub (d_log (reduce_sum (map d_exp logits))) (logits ! nat a))
      else None)"

fun sequence :: "'a option list \<Rightarrow> 'a list option" where
  "sequence [] = Some []"
| "sequence (None # xs) = None"
| "sequence (Some x # xs) = (case sequence xs of None \<Rightarrow> None | Some ys \<Rightarrow> Some (x # ys))"

text \<open>
  \<^verbatim>\<open>self.loss_a = tf.reduce_mean(tf.stop_gradient(self.td_errors) * xent(self.actor, self.actions))\<close>
\<close>

definition loss_a :: "('e, 'p) policy \<Rightarrow> 'p \<Rightarrow> param \<Rightarrow> feed \<Rightarrow> dual option" where
  "loss_a c p \<theta> f =
     (case sequence (map (\<lambda>(x, a). xent (actor_d c p \<theta> x) a)
                      (zip (feed_states f) (feed_actions f))) of
        None \<Rightarrow> None
      | Some xs \<Rightarrow>
          Some (reduce_mean (map (\<lambda>(td, x). d_mul (stop_gradient td) x)
                              (zip (td_errors c p \<theta> f) xs))))"

text \<open>
  \<^verbatim>\<open>_scope_vars(scope)\<close>: \<^verbatim>\<open>tf.get_collection(GLOBAL_VARIABLES, scope=scope)\<close> returns the
  variables of the collection whose name starts with \<open>scope\<close>, in the order of their
  creation; the method asserts that there is at least one.
\<close>

definition scope_vars :: "string \<Rightarrow> string list \<Rightarrow> error + string list" where
  "scope_vars scope collection =
     (let vars = filter (prefix scope) collection
      in if 0 < length vars then Inr vars else Inl AssertionError)"

record graph =
  global_variables :: "string list"
  actor_vars :: "string list"
  critic_vars :: "string list"

text \<open>
  \<^verbatim>\<open>build\<close>, over the names of the global variables that exist before it runs: the actor
  network and its variables, the critic network and its variables, and the product of the
  critic row with the one-hot row, whose widths must be broadcastable.
\<close>

definition build :: "('e, 'p) policy \<Rightarrow> string list \<Rightarrow> error + graph" where
  "build c collection =
     (let coll1 = collection @ mlp_vars c ''actor''
      in case scope_vars ''actor'' coll1 of
           Inl e \<Rightarrow> Inl e
         | Inr avars \<Rightarrow>
             (let coll2 = coll1 @ mlp_vars c ''critic''
              in case scope_vars ''critic'' coll2 of
                   Inl e \<Rightarrow> Inl e
                 | Inr cvars \<Rightarrow>
                     if broadcastable (last (layer_sizes c @ [1])) (act_size c)
                     then Inr \<lparr>global_variables = coll2, actor_vars = avars,
                               critic_vars = cvars\<rparr>
                     else Inl ValueError))"

text \<open>
  \<^verbatim>\<open>optim.compute_gradients(loss, var_list)\<close>: one pair of a gradient and a variable for
  each variable of the list. The gradient of a variable gives, for each index into it,
  the derivative of the loss with respect to that parameter.
\<close>

type_synonym gradient = "nat \<Rightarrow> real option"

definition compute_gradients :: "(param \<Rightarrow> dual option) \<Rightarrow> string list \<Rightarrow> (gradient \<times> string) list" where
  "compute_gradients loss var_list = map (\<lambda>v. (\<lambda>i. map_option snd (loss (v, i)), v)) var_list"

text \<open>
  The two functions of TensorFlow that the optimisers apply to a gradient:
  \<^verbatim>\<open>tf.clip_by_norm\<close> and the Adam update of a variable's value for a learning rate.
\<close>

record 'v optimizer =
  clip_by_norm :: "gradient \<Rightarrow> real \<Rightarrow> gradient"
  adam :: "real \<Rightarrow> gradient \<Rightarrow> 'v \<Rightarrow> 'v"

text \<open>\<^verbatim>\<open>if self.grad_clip_norm:\<close> is false for \<^verbatim>\<open>None\<close> and for zero.\<close>

definition clip_grads ::
  "('e, 'p) policy \<Rightarrow> 'v optimizer \<Rightarrow> (gradient \<times> string) list \<Rightarrow> (gradient \<times> string) list" where
  "clip_grads c opt gvs =
     (case grad_clip_norm c of
        None \<Rightarrow> gvs
      | Some n \<Rightarrow> if n = 0 then gvs else map (\<lambda>(g, v). (clip_by_norm opt g n, v)) gvs)"

definition grads_c ::
  "('e, string \<Rightarrow> 'v) policy \<Rightarrow> 'v optimizer \<Rightarrow> graph \<Rightarrow> (string \<Rightarrow> 'v) \<Rightarrow> feed \<Rightarrow> (gradient \<times> string) list" where
  "grads_c c opt g p f =
     clip_grads c opt (compute_gradients (\<lambda>\<theta>. Some (loss_c c p \<theta> f)) (critic_vars g))"

definition grads_a ::
  "('e, string \<Rightarrow> 'v) policy \<Rightarrow> 'v optimizer \<Rightarrow> graph \<Rightarrow> (string \<Rightarrow> 'v) \<Rightarrow> feed \<Rightarrow> (gradient \<times> string) list" where
  "grads_a c opt g p f =
     clip_grads c opt (compute_gradients (\<lambda>\<theta>. loss_a c p \<theta> f) (actor_vars g))"

text \<open>
  \<^verbatim>\<open>optim.apply_gradients(grads_and_vars)\<close> assigns a new value to each variable of the
  list, in turn.
\<close>

definition apply_gradients ::
  "(gradient \<Rightarrow> 'v \<Rightarrow> 'v) \<Rightarrow> (gradient \<times> string) list \<Rightarrow> (string \<Rightarrow> 'v) \<Rightarrow> (string \<Rightarrow> 'v)" where
  "apply_gradients update gvs p = fold (\<lambda>(g, v) q. q(v := update g (q v))) gvs p"

definition train_op_c ::
  "('e, string \<Rightarrow> 'v) policy \<Rightarrow> 'v optimizer \<Rightarrow> graph \<Rightarrow> feed \<Rightarrow> (string \<Rightarrow> 'v) \<Rightarrow> (string \<Rightarrow> 'v)" where
  "train_op_c c opt g f p =
     apply_gradients (adam opt (feed_learning_rate_c f)) (grads_c c opt g p f) p"

definition train_op_a ::
  "('e, string \<Rightarrow> 'v) policy \<Rightarrow> 'v optimizer \<Rightarrow> graph \<Rightarrow> feed \<Rightarrow> (string \<Rightarrow> 'v) \<Rightarrow> (string \<Rightarrow> 'v)" where
  "train_op_a c opt g f p =
     apply_gradients (adam opt (feed_learning_rate_a f)) (grads_a c opt g p f) p"

subsection \<open>A small instance\<close>

text \<open>
  A concrete policy on which the definitions can be run. The environment is a clock: an
  observation shows the time, every step advances it, pays reward one and ends the
  episode. Each network has one variable \<open>w\<close> and outputs its value in every unit; a
  training step adds one to the critic's variable. The random stream is constantly zero.
\<close>

definition toy_policy :: "rounding \<Rightarrow> nat \<Rightarrow> (nat, string \<Rightarrow> real) policy" where
  "toy_policy rnd n =
     \<lparr>training = True, gamma = rnd (9 / 10),
      lr_a = rnd (1 / 100), lr_a_decay = rnd (999 / 1000),
      lr_c = rnd (1 / 1000), lr_c_decay = rnd (999 / 1000),
      batch_size = n, layer_sizes = [64], grad_clip_norm = None, fl = rnd,
      env_reset = (\<lambda>t. (NDArray [1] [real t], t)),
      env_step = (\<lambda>t a. ((NDArray [1] [real (t + 1)], 1, True), t + 1)),
      action_space_sample = (\<lambda>t. (0, t)),
      action_space_n = 2,
      observation_space_shape = [1],
      net_value = (\<lambda>p name j x. p (name @ ''/w'')),
      net_deriv = (\<lambda>p name \<theta> j x. 1),
      net_var_suffixes = (\<lambda>name. [''w'']),
      run_train_ops = (\<lambda>p f. p(''critic/w'' := p ''critic/w'' + 1))\<rparr>"

text \<open>
  The same policy with an actor whose two logits are \<open>0\<close> and \<open>ln 3\<close>, so that the
  softmax probabilities of the two actions are \<open>1/4\<close> and \<open>3/4\<close>.
\<close>

definition skewed_policy :: "(nat, string \<Rightarrow> real) policy" where
  "skewed_policy =
     (toy_policy exact 1)\<lparr>net_value := (\<lambda>p name j x. if j = 0 then 0 else ln 3)\<rparr>"


definition toy_state :: "(nat, string \<Rightarrow> real) state" where
  "toy_state =
     \<lparr>env = 0, params = (\<lambda>v. 0), rng = (\<lambda>i. 0), memory = mem_empty, calls = [],
      step = 0, episode_reward = 0, reward_history = [], cur_lr_c = 0, cur_lr_a = 0,
      eps = 0, ob = NDArray [1] [0], done_flag = False, obs = [], actions = [],
      rewards = [], td_targets = []\<rparr>"

definition toy_optimizer :: "real optimizer" where
  "toy_optimizer = \<lparr>clip_by_norm = (\<lambda>g n. g), adam = (\<lambda>lr g v. v - lr)\<rparr>"

definition toy_feed :: feed where
  "toy_feed =
     \<lparr>feed_learning_rate_c = 1 / 1000, feed_learning_rate_a = 1 / 100,
      feed_states = [NDArray [1] [0]], feed_actions = [1], feed_rewards = [1],
      feed_td_targets = [1], feed_ep_reward = 0\<rparr>"

text \<open>The batches of states that a run has fed to the training step, oldest first.\<close>

fun fed_states :: "call list \<Rightarrow> ndarray list list" where
  "fed_states [] = []"
| "fed_states (TrainOps f # cs) = feed_states f # fed_states cs"
| "fed_states (_ # cs) = fed_states cs"

text \<open>The actions that a run has passed to \<^verbatim>\<open>env.step\<close>, oldest first.\<close>

fun stepped_actions :: "call list \<Rightarrow> int list" where
  "stepped_actions [] = []"
| "stepped_actions (EnvStep a # cs) = a # stepped_actions cs"
| "stepped_actions (_ # cs) = stepped_actions cs"

text \<open>The batches of targets that a run has fed to the training step, oldest first.\<close>

fun fed_td_targets :: "call list \<Rightarrow> real list list" where
  "fed_td_targets [] = []"
| "fed_td_targets (TrainOps f # cs) = feed_td_targets f # fed_td_targets cs"
| "fed_td_targets (_ # cs) = fed_td_targets cs"

section \<open>Properties\<close>

subsection \<open>Running the small instance\<close>

lemmas toy_eval = toy_policy_def toy_state_def act_def act_explore_def act_infer_def random_def
  choice_def choice_index_def actor_proba_def softmax_def actor_def act_size_def obs_size_def
  feedable_def generate_def episode_start_def episode_end_def episode_def
  default_epsilon_def exact_def fadd_def fmul_def fsub_def next_value_def critic_def mlp_def
  mem_add_def mem_empty_def mem_size_def mem_pop_def reformat_def feed_dict_def obs_to_inputs_def
  flatten_def eps_next_def Let_def split_def numeral_2_eq_2 step_loop.simps drain.simps

subsection \<open>What each part of the loop leaves unchanged\<close>

lemma act_frame:
  assumes "act c st x e = Inr (a, st')"
  shows "st' = st\<lparr>env := env st', rng := rng st', calls := calls st'\<rparr>"
proof (cases "training c \<and> rng st 0 < e")
  case True
  with assms show ?thesis
    by (cases st) (auto simp: act_def act_explore_def random_def Let_def split_def)
next
  case False
  with assms have "act_infer c (if training c then snd (random st) else st) x = Inr (a, st')"
    by (auto simp: act_def Let_def split_def random_def)
  then show ?thesis
    by (cases "training c")
       (auto simp: act_infer_def choice_def random_def Let_def split_def split: if_splits)
qed

lemma act_fields:
  assumes "act c st x e = Inr (a, st')"
  shows "params st' = params st" "memory st' = memory st" "cur_lr_a st' = cur_lr_a st"
    "cur_lr_c st' = cur_lr_c st" "eps st' = eps st" "reward_history st' = reward_history st"
    "ob st' = ob st" "done_flag st' = done_flag st" "obs st' = obs st"
    "actions st' = actions st" "rewards st' = rewards st" "td_targets st' = td_targets st"
    "step st' = step st" "episode_reward st' = episode_reward st"
  by (subst act_frame[OF assms], simp)+

lemma act_calls:
  assumes "act c st x e = Inr (a, st')"
  shows "calls st' = calls st @ [EnvSample] \<or> calls st' = calls st @ [ActorEval [x]]"
  using assms
  by (auto simp: act_def act_explore_def act_infer_def choice_def random_def Let_def split_def
      split: if_splits)

text \<open>What a completed pass of the step loop has done.\<close>

lemma generate_Inr:
  assumes "generate c st = Inr st'"
  obtains a st1 ob_next r d e' where
    "act c st (ob st) (eps st) = Inr (a, st1)"
    "env_step c (env st1) a = ((ob_next, r, d), e')"
    "feedable c [ob_next]"
    "st' = st1\<lparr>env := e',
              calls := calls st1 @ [EnvStep a, CriticEval [ob_next]],
              step := step st + 1,
              episode_reward := fadd (fl c) (episode_reward st) r,
              obs := obs st @ [obs_to_inputs (ob st)],
              actions := actions st @ [a],
              rewards := rewards st @ [r],
              td_targets := td_targets st @
                [fadd (fl c) r (fmul (fl c) (gamma c) (next_value c (params st) ob_next))],
              memory := mem_add (Record (ob st) a r
                (fadd (fl c) r (fmul (fl c) (gamma c) (next_value c (params st) ob_next))))
                (memory st),
              ob := ob_next, done_flag := d\<rparr>"
proof -
  from assms obtain a st1 where a: "act c st (ob st) (eps st) = Inr (a, st1)"
    by (auto simp: generate_def split: sum.splits)
  obtain ob_next r d e' where s: "env_step c (env st1) a = ((ob_next, r, d), e')"
    by (metis prod.exhaust)
  from assms a s have f: "feedable c [ob_next]"
    by (auto simp: generate_def Let_def split: if_splits)
  from a s f act_fields[OF a]
  have "generate c st = Inr (st1\<lparr>env := e',
              calls := calls st1 @ [EnvStep a, CriticEval [ob_next]],
              step := step st + 1,
              episode_reward := fadd (fl c) (episode_reward st) r,
              obs := obs st @ [obs_to_inputs (ob st)],
              actions := actions st @ [a],
              rewards := rewards st @ [r],
              td_targets := td_targets st @
                [fadd (fl c) r (fmul (fl c) (gamma c) (next_value c (params st) ob_next))],
              memory := mem_add (Record (ob st) a r
                (fadd (fl c) r (fmul (fl c) (gamma c) (next_value c (params st) ob_next))))
                (memory st),
              ob := ob_next, done_flag := d\<rparr>)"
    by (cases st1) (simp add: generate_def Let_def)
  from this[unfolded assms] a s f show ?thesis
    by (intro that) (simp_all only: sum.inject)
qed

lemma generate_fields:
  assumes "generate c st = Inr st'"
  shows "params st' = params st" "cur_lr_a st' = cur_lr_a st" "cur_lr_c st' = cur_lr_c st"
    "eps st' = eps st" "reward_history st' = reward_history st"
proof -
  from assms obtain a st1 ob_next r d e' where
    a: "act c st (ob st) (eps st) = Inr (a, st1)"
    and e: "st' = st1\<lparr>env := e',
              calls := calls st1 @ [EnvStep a, CriticEval [ob_next]],
              step := step st + 1,
              episode_reward := fadd (fl c) (episode_reward st) r,
              obs := obs st @ [obs_to_inputs (ob st)],
              actions := actions st @ [a],
              rewards := rewards st @ [r],
              td_targets := td_targets st @
                [fadd (fl c) r (fmul (fl c) (gamma c) (next_value c (params st) ob_next))],
              memory := mem_add (Record (ob st) a r
                (fadd (fl c) r (fmul (fl c) (gamma c) (next_value c (params st) ob_next))))
                (memory st),
              ob := ob_next, done_flag := d\<rparr>"
    by (rule generate_Inr)
  show "params st' = params st" by (simp add: e act_fields[OF a])
  show "cur_lr_a st' = cur_lr_a st" by (simp add: e act_fields[OF a])
  show "cur_lr_c st' = cur_lr_c st" by (simp add: e act_fields[OF a])
  show "eps st' = eps st" by (simp add: e act_fields[OF a])
  show "reward_history st' = reward_history st" by (simp add: e act_fields[OF a])
qed

lemma drain_result:
  assumes "drain c st = Some res"
  shows "res = Inl ValueError \<or>
     (\<exists>st'. res = Inr st' \<and> mem_size (memory st') < batch_size c
        \<and> st' = st\<lparr>memory := memory st', params := params st', calls := calls st'\<rparr>)"
proof (rule drain.raw_induct[OF _ assms], goal_cases)
  case (1 drain' c st res)
  show ?case
  proof (cases "batch_size c \<le> mem_size (memory st)")
    case True
    then obtain b mem' where p: "mem_pop (batch_size c) (memory st) = Inr (b, mem')"
      by (simp add: mem_pop_def)
    show ?thesis
    proof (cases "feedable c (batch_s b)")
      case f: True
      let ?st = "st\<lparr>memory := mem',
                     params := run_train_ops c (params st) (feed_dict st b),
                     calls := calls st @ [TrainOps (feed_dict st b)]\<rparr>"
      from 1(2) True p f have "drain' c ?st = Some res" by simp
      from 1(1)[OF this] show ?thesis
      proof
        assume "res = Inl ValueError"
        then show ?thesis by simp
      next
        assume "\<exists>st'. res = Inr st' \<and> mem_size (memory st') < batch_size c
          \<and> st' = ?st\<lparr>memory := memory st', params := params st', calls := calls st'\<rparr>"
        then obtain st' where "res = Inr st'" "mem_size (memory st') < batch_size c"
          "st' = ?st\<lparr>memory := memory st', params := params st', calls := calls st'\<rparr>"
          by blast
        then show ?thesis by simp
      qed
    next
      case False
      with 1(2) True p show ?thesis by simp
    qed
  next
    case False
    with 1(2) show ?thesis by auto
  qed
qed

lemma drain_terminates: "\<exists>res. drain c st = Some res"
proof (induction "mem_size (memory st)" arbitrary: st rule: less_induct)
  case less
  show ?case
  proof (cases "batch_size c \<le> mem_size (memory st)")
    case True
    let ?b = "reformat (take (batch_size c) (memory st))"
    let ?st = "st\<lparr>memory := drop (batch_size c) (memory st),
                   params := run_train_ops c (params st) (feed_dict st ?b),
                   calls := calls st @ [TrainOps (feed_dict st ?b)]\<rparr>"
    show ?thesis
    proof (cases "feedable c (batch_s ?b)")
      case f: True
      then have "0 < batch_size c"
        by (cases "batch_size c") (simp_all add: feedable_def reformat_def)
      with True have "mem_size (memory ?st) < mem_size (memory st)"
        by (simp add: mem_size_def)
      from less[OF this] obtain res where "drain c ?st = Some res" by blast
      with True f show ?thesis
        by (subst drain.simps) (simp add: mem_pop_def)
    next
      case False
      with True show ?thesis
        by (subst drain.simps) (simp add: mem_pop_def)
    qed
  next
    case False
    then show ?thesis by (subst drain.simps) simp
  qed
qed

lemma drain_fields:
  assumes "drain c st = Some (Inr st')"
  shows "cur_lr_a st' = cur_lr_a st" "cur_lr_c st' = cur_lr_c st" "eps st' = eps st"
    "reward_history st' = reward_history st" "done_flag st' = done_flag st"
    "episode_reward st' = episode_reward st" "actions st' = actions st" "ob st' = ob st"
    "mem_size (memory st') < batch_size c"
proof -
  from drain_result[OF assms]
  have e: "st' = st\<lparr>memory := memory st', params := params st', calls := calls st'\<rparr>"
    and m: "mem_size (memory st') < batch_size c"
    by simp_all
  show "cur_lr_a st' = cur_lr_a st" by (subst e) simp
  show "cur_lr_c st' = cur_lr_c st" by (subst e) simp
  show "eps st' = eps st" by (subst e) simp
  show "reward_history st' = reward_history st" by (subst e) simp
  show "done_flag st' = done_flag st" by (subst e) simp
  show "episode_reward st' = episode_reward st" by (subst e) simp
  show "actions st' = actions st" by (subst e) simp
  show "ob st' = ob st" by (subst e) simp
  show "mem_size (memory st') < batch_size c" by (rule m)
qed

lemma step_loop_result:
  assumes "step_loop c st = Some res"
  shows "res = Inl ValueError \<or>
     (\<exists>st'. res = Inr st' \<and> cur_lr_a st' = cur_lr_a st \<and> cur_lr_c st' = cur_lr_c st
           \<and> eps st' = eps st \<and> reward_history st' = reward_history st)"
proof (rule step_loop.raw_induct[OF _ assms], goal_cases)
  case (1 step_loop' c st res)
  show ?case
  proof (cases "done_flag st")
    case True
    with 1(2) show ?thesis by auto
  next
    case False
    show ?thesis
    proof (cases "generate c st")
      case (Inl e)
      then have "e = ValueError"
        by (auto simp: generate_def act_def act_infer_def choice_def Let_def split_def
            split: sum.splits if_splits)
      with 1(2) False Inl show ?thesis by simp
    next
      case (Inr g)
      with 1(2) False obtain r where d: "drain c g = Some r"
        by (auto split: option.splits)
      from drain_result[OF d] show ?thesis
      proof
        assume "r = Inl ValueError"
        with 1(2) False Inr d show ?thesis by simp
      next
        assume "\<exists>st'. r = Inr st' \<and> mem_size (memory st') < batch_size c
          \<and> st' = g\<lparr>memory := memory st', params := params st', calls := calls st'\<rparr>"
        then obtain st1 where r: "r = Inr st1" by blast
        from 1(2) False Inr d r have "step_loop' c st1 = Some res" by simp
        from 1(1)[OF this] drain_fields[OF d[unfolded r]] generate_fields[OF Inr]
        show ?thesis by auto
      qed
    qed
  qed
qed

lemma episode_start_Inr:
  assumes "episode_start c st = Inr st'"
  shows "memory st' = memory st" "cur_lr_a st' = cur_lr_a st" "cur_lr_c st' = cur_lr_c st"
    "eps st' = eps st" "reward_history st' = reward_history st"
    "actions st' = []" "\<not> done_flag st'" "ob st' = fst (env_reset c (env st))"
proof -
  let ?st1 = "st\<lparr>env := snd (env_reset c (env st)), calls := calls st @ [EnvReset],
                  ob := fst (env_reset c (env st))\<rparr>"
  from assms obtain a st2 where a: "act c ?st1 (ob ?st1) (default_epsilon c) = Inr (a, st2)"
    and e: "st' = st2\<lparr>done_flag := False, obs := [], actions := [], rewards := [],
                      td_targets := []\<rparr>"
    by (auto simp: episode_start_def Let_def split_def split: sum.splits)
  show "memory st' = memory st" by (simp add: e act_fields[OF a])
  show "cur_lr_a st' = cur_lr_a st" by (simp add: e act_fields[OF a])
  show "cur_lr_c st' = cur_lr_c st" by (simp add: e act_fields[OF a])
  show "eps st' = eps st" by (simp add: e act_fields[OF a])
  show "reward_history st' = reward_history st" by (simp add: e act_fields[OF a])
  show "actions st' = []" by (simp add: e)
  show "\<not> done_flag st'" by (simp add: e)
  show "ob st' = fst (env_reset c (env st))" by (simp add: e act_fields[OF a])
qed

lemma episode_start_Inl:
  assumes "episode_start c st = Inl e"
  shows "e = ValueError"
  using assms
  by (auto simp: episode_start_def act_def act_infer_def choice_def Let_def split_def
      split: sum.splits if_splits)

lemma episode_result:
  assumes "episode c d st = Some res"
  shows "res = Inl ValueError \<or>
     (\<exists>st'. res = Inr st'
     \<and> cur_lr_a st' = fmul (fl c) (cur_lr_a st) (lr_a_decay c)
     \<and> cur_lr_c st' = fmul (fl c) (cur_lr_c st) (lr_c_decay c)
     \<and> eps st' = eps_next (fl c) d (eps st)
     \<and> length (reward_history st') = Suc (length (reward_history st)))"
proof (cases "episode_start c st")
  case (Inl e)
  with assms episode_start_Inl[OF Inl] show ?thesis by (simp add: episode_def)
next
  case (Inr st0)
  with assms obtain r where s: "step_loop c st0 = Some r"
    by (auto simp: episode_def split: option.splits)
  from step_loop_result[OF s] show ?thesis
  proof
    assume "r = Inl ValueError"
    with assms Inr s show ?thesis by (simp add: episode_def)
  next
    assume "\<exists>st'. r = Inr st' \<and> cur_lr_a st' = cur_lr_a st0 \<and> cur_lr_c st' = cur_lr_c st0
           \<and> eps st' = eps st0 \<and> reward_history st' = reward_history st0"
    then obtain st1 where r: "r = Inr st1" and f: "cur_lr_a st1 = cur_lr_a st0"
      "cur_lr_c st1 = cur_lr_c st0" "eps st1 = eps st0"
      "reward_history st1 = reward_history st0"
      by blast
    from assms Inr s r have "res = Inr (episode_end c d st1)"
      by (simp add: episode_def)
    with f episode_start_Inr[OF Inr] show ?thesis by (simp add: episode_end_def)
  qed
qed

lemma episodes_result:
  assumes "episodes c d k st = Some res"
  shows "res = Inl ValueError \<or>
     (\<exists>st'. res = Inr st'
     \<and> cur_lr_a st' = ((\<lambda>x. fmul (fl c) x (lr_a_decay c)) ^^ k) (cur_lr_a st)
     \<and> cur_lr_c st' = ((\<lambda>x. fmul (fl c) x (lr_c_decay c)) ^^ k) (cur_lr_c st)
     \<and> eps st' = (eps_next (fl c) d ^^ k) (eps st)
     \<and> length (reward_history st') = length (reward_history st) + k)"
  using assms
proof (induction k arbitrary: st)
  case 0
  then show ?case by auto
next
  case (Suc k)
  from Suc.prems obtain r where e: "episode c d st = Some r"
    by (auto split: option.splits)
  from episode_result[OF e] show ?case
  proof
    assume "r = Inl ValueError"
    with Suc.prems e show ?thesis by simp
  next
    assume "\<exists>st'. r = Inr st'
     \<and> cur_lr_a st' = fmul (fl c) (cur_lr_a st) (lr_a_decay c)
     \<and> cur_lr_c st' = fmul (fl c) (cur_lr_c st) (lr_c_decay c)
     \<and> eps st' = eps_next (fl c) d (eps st)
     \<and> length (reward_history st') = Suc (length (reward_history st))"
    then obtain st1 where r: "r = Inr st1"
      and f: "cur_lr_a st1 = fmul (fl c) (cur_lr_a st) (lr_a_decay c)"
        "cur_lr_c st1 = fmul (fl c) (cur_lr_c st) (lr_c_decay c)"
        "eps st1 = eps_next (fl c) d (eps st)"
        "length (reward_history st1) = Suc (length (reward_history st))"
      by blast
    from Suc.prems e r have "episodes c d k st1 = Some res" by simp
    from Suc.IH[OF this] f show ?thesis by (simp add: funpow_Suc_right del: funpow.simps)
  qed
qed

subsection \<open>The exploration schedule in binary64\<close>

lemmas b64 = eps_next_def fsub_def binary64_def ilog2_def round_half_even_def pow2_def
  Let_def compute_bitlen

text \<open>
  The rounding on a few numbers: the floats that Python prints for \<^verbatim>\<open>0.5\<close>, \<^verbatim>\<open>0.1\<close>,
  \<^verbatim>\<open>0.01\<close> and \<^verbatim>\<open>0.049\<close>, two ties and a negative number.
\<close>

lemma binary64_examples:
  "binary64 (1 / 2) = 1 / 2"
  "binary64 (1 / 10) = 3602879701896397 / 36028797018963968"
  "binary64 (1 / 100) = 5764607523034235 / 576460752303423488"
  "binary64 (49 / 1000) = 3530822107858469 / 72057594037927936"
  "binary64 (1 + 1 / 2 ^ 53) = 1"
  "binary64 (1 + 3 / 2 ^ 53) = 1 + 1 / 2 ^ 51"
  "binary64 (- (1 / 10)) = - (3602879701896397 / 36028797018963968)"
  by (simp_all add: b64)

lemma binary64_eps_drop:
  "binary64 (fsub binary64 (binary64 (1 / 2)) (binary64 (1 / 100)) / binary64 (of_int 10))
     = 3530822107858469 / 72057594037927936"
  by (simp add: b64)

lemma binary64_schedule_11:
  "(eps_next binary64 (3530822107858469 / 72057594037927936) ^^ 11) (binary64 (1 / 2)) = - (175640385467449 / 4503599627370496)"
proof -
  have h: "binary64 (1 / 2) = 1 / 2"
    by (simp add: b64)
  have s0: "eps_next binary64 (3530822107858469 / 72057594037927936) (1 / 2) = 8124493727776375 / 18014398509481984"
    by (simp add: b64)
  have s1: "eps_next binary64 (3530822107858469 / 72057594037927936) (8124493727776375 / 18014398509481984) = 3620894100405879 / 9007199254740992"
    by (simp add: b64)
  have s2: "eps_next binary64 (3530822107858469 / 72057594037927936) (3620894100405879 / 9007199254740992) = 6359082673847141 / 18014398509481984"
    by (simp add: b64)
  have s3: "eps_next binary64 (3530822107858469 / 72057594037927936) (6359082673847141 / 18014398509481984) = 1369094286720631 / 4503599627370496"
    by (simp add: b64)
  have s4: "eps_next binary64 (3530822107858469 / 72057594037927936) (1369094286720631 / 4503599627370496) = 4593671619917907 / 18014398509481984"
    by (simp add: b64)
  have s5: "eps_next binary64 (3530822107858469 / 72057594037927936) (4593671619917907 / 18014398509481984) = 1855483046476645 / 9007199254740992"
    by (simp add: b64)
  have s6: "eps_next binary64 (3530822107858469 / 72057594037927936) (1855483046476645 / 9007199254740992) = 2828260565988673 / 18014398509481984"
    by (simp add: b64)
  have s7: "eps_next binary64 (3530822107858469 / 72057594037927936) (2828260565988673 / 18014398509481984) = 7782220156096223 / 72057594037927936"
    by (simp add: b64)
  have s8: "eps_next binary64 (3530822107858469 / 72057594037927936) (7782220156096223 / 72057594037927936) = 2125699024118877 / 36028797018963968"
    by (simp add: b64)
  have s9: "eps_next binary64 (3530822107858469 / 72057594037927936) (2125699024118877 / 36028797018963968) = 720575940379285 / 72057594037927936"
    by (simp add: b64)
  have s10: "eps_next binary64 (3530822107858469 / 72057594037927936) (720575940379285 / 72057594037927936) = - (175640385467449 / 4503599627370496)"
    by (simp add: b64)
  show ?thesis
    unfolding h
    by (simp add: eval_nat_numeral s0 s1 s2 s3 s4 s5 s6 s7 s8 s9 s10)
qed

lemma binary64_schedule_fixed:
  "eps_next binary64 (3530822107858469 / 72057594037927936) (- (175640385467449 / 4503599627370496))
     = - (175640385467449 / 4503599627370496)"
  by (simp add: b64)

lemma funpow_fixed: "f x = x \<Longrightarrow> (f ^^ n) x = x"
  by (induction n) simp_all

lemma binary64_schedule_late:
  assumes "11 \<le> n"
  shows "(eps_next binary64 (3530822107858469 / 72057594037927936) ^^ n) (binary64 (1 / 2)) = - (175640385467449 / 4503599627370496)"
proof -
  from assms have "n = (n - 11) + 11" by simp
  then have "(eps_next binary64 (3530822107858469 / 72057594037927936) ^^ n) (binary64 (1 / 2))
      = (eps_next binary64 (3530822107858469 / 72057594037927936) ^^ (n - 11)) ((eps_next binary64 (3530822107858469 / 72057594037927936) ^^ 11) (binary64 (1 / 2)))"
    by (metis funpow_add o_apply)
  then show ?thesis
    by (simp only: binary64_schedule_11
          funpow_fixed[of "eps_next binary64 (3530822107858469 / 72057594037927936)",
            OF binary64_schedule_fixed])
qed

subsection \<open>Environments with flat observations whose episodes last one step\<close>

lemma generate_eq:
  assumes "act c st (ob st) (eps st) = Inr (a, st1)"
    and "env_step c (env st1) a = ((ob_next, r, d), e')"
    and "feedable c [ob_next]"
  shows "generate c st = Inr (st1\<lparr>env := e',
              calls := calls st1 @ [EnvStep a, CriticEval [ob_next]],
              step := step st + 1,
              episode_reward := fadd (fl c) (episode_reward st) r,
              obs := obs st @ [obs_to_inputs (ob st)],
              actions := actions st @ [a],
              rewards := rewards st @ [r],
              td_targets := td_targets st @
                [fadd (fl c) r (fmul (fl c) (gamma c) (next_value c (params st) ob_next))],
              memory := mem_add (Record (ob st) a r
                (fadd (fl c) r (fmul (fl c) (gamma c) (next_value c (params st) ob_next))))
                (memory st),
              ob := ob_next, done_flag := d\<rparr>)"
  using assms act_fields[OF assms(1)]
  by (cases st1) (simp add: generate_def Let_def)

lemma act_flat:
  assumes "shape x = [obs_size c]" and "0 < act_size c"
  shows "\<exists>a st'. act c st x e = Inr (a, st')"
proof -
  have "length (actor_proba c p x) = act_size c" for p
    by (simp add: actor_proba_def softmax_def actor_def mlp_def)
  with assms have "\<exists>a st'. act_infer c s x = Inr (a, st')" for s
    by (simp add: act_infer_def feedable_def choice_def Let_def split_def)
  then show ?thesis
    by (simp add: act_def Let_def split_def)
qed

lemma generate_flat_one_step:
  assumes "shape (ob st) = [obs_size c]" and "0 < act_size c"
    and "\<forall>e a. shape (fst (fst (env_step c e a))) = [obs_size c]"
    and "\<forall>e a. snd (snd (fst (env_step c e a)))"
    and "list_all (\<lambda>r. shape (s_of r) = [obs_size c]) (memory st)"
  shows "\<exists>st'. generate c st = Inr st'
     \<and> list_all (\<lambda>r. shape (s_of r) = [obs_size c]) (memory st')
     \<and> done_flag st'"
proof -
  from act_flat[OF assms(1,2)] obtain a st1 where
    a: "act c st (ob st) (eps st) = Inr (a, st1)" by blast
  obtain ob_next r d e' where s: "env_step c (env st1) a = ((ob_next, r, d), e')"
    by (metis prod.exhaust)
  from assms(3)[rule_format, of "env st1" a] s have f: "feedable c [ob_next]"
    by (simp add: feedable_def)
  from assms(4)[rule_format, of "env st1" a] s have d: "d" by simp
  from generate_eq[OF a s f] assms(1,5) d show ?thesis
    by (simp add: mem_add_def)
qed

lemma drain_flat:
  assumes "0 < batch_size c"
    and "list_all (\<lambda>r. shape (s_of r) = [obs_size c]) (memory st)"
  shows "\<exists>st'. drain c st = Some (Inr st')
     \<and> list_all (\<lambda>r. shape (s_of r) = [obs_size c]) (memory st')"
  using assms(2)
proof (induction "mem_size (memory st)" arbitrary: st rule: less_induct)
  case less
  show ?case
  proof (cases "batch_size c \<le> mem_size (memory st)")
    case True
    let ?b = "reformat (take (batch_size c) (memory st))"
    let ?st = "st\<lparr>memory := drop (batch_size c) (memory st),
                   params := run_train_ops c (params st) (feed_dict st ?b),
                   calls := calls st @ [TrainOps (feed_dict st ?b)]\<rparr>"
    from True assms(1) have "take (batch_size c) (memory st) \<noteq> []"
      by (auto simp: mem_size_def)
    moreover from less.prems
    have "list_all (\<lambda>r. shape (s_of r) = [obs_size c]) (take (batch_size c) (memory st))"
      by (auto simp: list_all_iff dest: in_set_takeD)
    ultimately have f: "feedable c (batch_s ?b)"
      by (simp add: feedable_def reformat_def list_all_iff)
    have "mem_size (memory ?st) < mem_size (memory st)"
      using True assms(1) by (simp add: mem_size_def)
    moreover from less.prems
    have "list_all (\<lambda>r. shape (s_of r) = [obs_size c]) (memory ?st)"
      by (auto simp: list_all_iff dest: in_set_dropD)
    ultimately obtain st' where "drain c ?st = Some (Inr st')"
      "list_all (\<lambda>r. shape (s_of r) = [obs_size c]) (memory st')"
      using less.hyps by blast
    with True f show ?thesis
      by (subst drain.simps) (simp add: mem_pop_def)
  next
    case False
    with less.prems show ?thesis by (subst drain.simps) simp
  qed
qed

lemma step_loop_one_step:
  assumes "0 < batch_size c" and "0 < act_size c"
    and "\<forall>e a. shape (fst (fst (env_step c e a))) = [obs_size c]"
    and "\<forall>e a. snd (snd (fst (env_step c e a)))"
    and "shape (ob st) = [obs_size c]"
    and "list_all (\<lambda>r. shape (s_of r) = [obs_size c]) (memory st)"
  shows "\<exists>st'. step_loop c st = Some (Inr st')
     \<and> list_all (\<lambda>r. shape (s_of r) = [obs_size c]) (memory st')"
proof (cases "done_flag st")
  case True
  with assms(6) show ?thesis by (subst step_loop.simps) simp
next
  case False
  from generate_flat_one_step[OF assms(5,2,3,4,6)] obtain g where
    g: "generate c st = Inr g" "list_all (\<lambda>r. shape (s_of r) = [obs_size c]) (memory g)"
      "done_flag g"
    by blast
  from drain_flat[OF assms(1) g(2)] obtain st1 where
    d: "drain c g = Some (Inr st1)"
    and m: "list_all (\<lambda>r. shape (s_of r) = [obs_size c]) (memory st1)" by blast
  from drain_fields(5)[OF d] g(3) have "done_flag st1" by simp
  then have "step_loop c st1 = Some (Inr st1)" by (subst step_loop.simps) simp
  with False g(1) d m show ?thesis by (subst step_loop.simps) simp
qed

lemma episodes_one_step:
  assumes "0 < batch_size c" and "0 < act_size c"
    and "\<forall>e a. shape (fst (fst (env_step c e a))) = [obs_size c]"
    and "\<forall>e a. snd (snd (fst (env_step c e a)))"
    and "\<forall>e. shape (fst (env_reset c e)) = [obs_size c]"
    and "list_all (\<lambda>r. shape (s_of r) = [obs_size c]) (memory st)"
  shows "\<exists>st'. episodes c d k st = Some (Inr st')"
  using assms(6)
proof (induction k arbitrary: st)
  case 0
  show ?case by simp
next
  case (Suc k)
  let ?st1 = "st\<lparr>env := snd (env_reset c (env st)), calls := calls st @ [EnvReset],
                  ob := fst (env_reset c (env st))\<rparr>"
  have "shape (ob ?st1) = [obs_size c]" using assms(5) by simp
  from act_flat[OF this assms(2)] obtain a st2 where
    a: "act c ?st1 (ob ?st1) (default_epsilon c) = Inr (a, st2)" by blast
  then obtain st0 where s0: "episode_start c st = Inr st0"
    by (simp add: episode_start_def Let_def split_def)
  from episode_start_Inr[OF s0] Suc.prems assms(5)
  have "shape (ob st0) = [obs_size c]"
    "list_all (\<lambda>r. shape (s_of r) = [obs_size c]) (memory st0)"
    by simp_all
  from step_loop_one_step[OF assms(1,2,3,4) this] obtain st1 where
    s: "step_loop c st0 = Some (Inr st1)"
    and m: "list_all (\<lambda>r. shape (s_of r) = [obs_size c]) (memory st1)" by blast
  from s0 s have e: "episode c d st = Some (Inr (episode_end c d st1))"
    by (simp add: episode_def)
  from m have "list_all (\<lambda>r. shape (s_of r) = [obs_size c]) (memory (episode_end c d st1))"
    by (simp add: episode_end_def)
  from Suc.IH[OF this] e show ?case by simp
qed

subsection \<open>The replay memory and its guard\<close>

lemma fold_mem_add: "fold mem_add recs m0 = m0 @ recs"
  by (induction recs arbitrary: m0) (simp_all add: mem_add_def)

lemma train_result:
  assumes "train c n ae st = Some res"
  shows "res \<noteq> Inl InsufficientDataError"
proof (cases "eps_drop_of c n ae")
  case (Inl e)
  then have "e = ZeroDivisionError"
    by (auto simp: eps_drop_of_def Let_def split: if_splits)
  with assms Inl show ?thesis by (auto simp: train_def)
next
  case (Inr d)
  let ?st = "st\<lparr>step := 0, episode_reward := 0, reward_history := [],
                 cur_lr_c := lr_c c, cur_lr_a := lr_a c, eps := initial_eps c\<rparr>"
  from assms Inr obtain r where e: "episodes c d (nat n) ?st = Some r"
    by (auto simp: train_def split: option.splits)
  from episodes_result[OF e] have "r = Inl ValueError \<or> (\<exists>st'. r = Inr st')" by blast
  with assms Inr e show ?thesis by (auto simp: train_def split: if_splits)
qed

text \<open>
  Claim C7. After any sequence of \<^verbatim>\<open>add\<close> calls, \<^verbatim>\<open>pop(n)\<close> with \<open>n\<close> at most the
  size returns the \<open>n\<close> earliest-inserted records, one array of length \<open>n\<close> per
  field, and the size goes down by \<open>n\<close>; with \<open>n\<close> above the size it fails with
  \<^verbatim>\<open>InsufficientDataError\<close>. The training loop pops only under its guard, so neither the
  drain loop, nor the step loop, nor \<^verbatim>\<open>train\<close> ever ends in that error.
\<close>

theorem replay_memory_pop:
  "(n \<le> mem_size (fold mem_add recs m0) \<longrightarrow>
      mem_pop n (fold mem_add recs m0)
        = Inr (reformat (take n (m0 @ recs)), drop n (m0 @ recs))
      \<and> length (batch_s (reformat (take n (m0 @ recs)))) = n
      \<and> length (batch_a (reformat (take n (m0 @ recs)))) = n
      \<and> length (batch_r (reformat (take n (m0 @ recs)))) = n
      \<and> length (batch_td_target (reformat (take n (m0 @ recs)))) = n
      \<and> mem_size (drop n (m0 @ recs)) = mem_size (fold mem_add recs m0) - n)
   \<and> (mem_size (fold mem_add recs m0) < n \<longrightarrow>
      mem_pop n (fold mem_add recs m0) = Inl InsufficientDataError)
   \<and> drain c st \<noteq> Some (Inl InsufficientDataError)
   \<and> step_loop c st \<noteq> Some (Inl InsufficientDataError)
   \<and> train c k ae st \<noteq> Some (Inl InsufficientDataError)"
proof (intro conjI impI)
  assume "n \<le> mem_size (fold mem_add recs m0)"
  then have n: "n \<le> length (m0 @ recs)"
    by (simp add: fold_mem_add mem_size_def)
  show "mem_pop n (fold mem_add recs m0)
        = Inr (reformat (take n (m0 @ recs)), drop n (m0 @ recs))"
    using n by (simp add: fold_mem_add mem_pop_def mem_size_def)
  show "length (batch_s (reformat (take n (m0 @ recs)))) = n"
    using n by (simp add: reformat_def)
  show "length (batch_a (reformat (take n (m0 @ recs)))) = n"
    using n by (simp add: reformat_def)
  show "length (batch_r (reformat (take n (m0 @ recs)))) = n"
    using n by (simp add: reformat_def)
  show "length (batch_td_target (reformat (take n (m0 @ recs)))) = n"
    using n by (simp add: reformat_def)
  show "mem_size (drop n (m0 @ recs)) = mem_size (fold mem_add recs m0) - n"
    by (simp add: fold_mem_add mem_size_def)
next
  assume "mem_size (fold mem_add recs m0) < n"
  then show "mem_pop n (fold mem_add recs m0) = Inl InsufficientDataError"
    by (simp add: mem_pop_def)
next
  show "drain c st \<noteq> Some (Inl InsufficientDataError)"
    using drain_result[of c st] by (cases "drain c st") auto
  show "step_loop c st \<noteq> Some (Inl InsufficientDataError)"
    using step_loop_result[of c st] by (cases "step_loop c st") auto
  show "train c k ae st \<noteq> Some (Inl InsufficientDataError)"
    using train_result[of c k ae st] by blast
qed

theorem replay_memory_pop_witness:
  "(1::nat) \<le> mem_size (fold mem_add [Record (NDArray [1] [0]) 0 1 1, Record (NDArray [1] [1]) 1 1 2] mem_empty)
   \<and> mem_pop 1 (fold mem_add [Record (NDArray [1] [0]) 0 1 1, Record (NDArray [1] [1]) 1 1 2] mem_empty)
       = Inr (\<lparr>batch_s = [NDArray [1] [0]], batch_a = [0], batch_r = [1], batch_td_target = [1]\<rparr>,
              [Record (NDArray [1] [1]) 1 1 2])
   \<and> mem_size (fold mem_add [Record (NDArray [1] [0]) 0 1 1] mem_empty) < (2::nat)
   \<and> mem_pop 2 (fold mem_add [Record (NDArray [1] [0]) 0 1 1] mem_empty) = Inl InsufficientDataError"
  using replay_memory_pop[of 1 "[Record (NDArray [1] [0]) 0 1 1, Record (NDArray [1] [1]) 1 1 2]"
      mem_empty "toy_policy exact 1" toy_state 1 None]
    replay_memory_pop[of 2 "[Record (NDArray [1] [0]) 0 1 1]"
      mem_empty "toy_policy exact 1" toy_state 1 None]
  by (simp add: mem_empty_def mem_add_def mem_size_def reformat_def)

subsection \<open>The target is bootstrapped when the transition is generated\<close>

text \<open>
  Claim C1. The record that one completed pass of the step loop adds to the memory
  holds, as its target, \<open>r + gamma * v\<close> in the policy's float arithmetic, where
  \<open>v\<close> is the critic's output on the new observation under the variable values of the
  moment: those the pass starts with, which it does not change. A later training step is
  fed the stored target as it is.
\<close>

theorem td_target_online_bootstrap:
  "(generate c st = Inr st' \<longrightarrow>
      (\<exists>a st1 ob_next r d e'.
         act c st (ob st) (eps st) = Inr (a, st1)
         \<and> env_step c (env st1) a = ((ob_next, r, d), e')
         \<and> memory st' = memory st @
             [Record (ob st) a r (fl c (r + fl c (gamma c * (critic c (params st) ob_next ! 0))))]
         \<and> td_targets st' = td_targets st @
             [fl c (r + fl c (gamma c * (critic c (params st) ob_next ! 0)))]
         \<and> critic c (params st) ob_next ! 0 = net_value c (params st) ''critic'' 0 ob_next)
      \<and> params st' = params st)
   \<and> feed_td_targets (feed_dict st2 (reformat recs)) = map td_target_of recs"
proof (intro conjI impI)
  assume g: "generate c st = Inr st'"
  then obtain a st1 ob_next r d e' where
    a: "act c st (ob st) (eps st) = Inr (a, st1)"
    and s: "env_step c (env st1) a = ((ob_next, r, d), e')"
    and e: "st' = st1\<lparr>env := e',
              calls := calls st1 @ [EnvStep a, CriticEval [ob_next]],
              step := step st + 1,
              episode_reward := fadd (fl c) (episode_reward st) r,
              obs := obs st @ [obs_to_inputs (ob st)],
              actions := actions st @ [a],
              rewards := rewards st @ [r],
              td_targets := td_targets st @
                [fadd (fl c) r (fmul (fl c) (gamma c) (next_value c (params st) ob_next))],
              memory := mem_add (Record (ob st) a r
                (fadd (fl c) r (fmul (fl c) (gamma c) (next_value c (params st) ob_next))))
                (memory st),
              ob := ob_next, done_flag := d\<rparr>"
    by (rule generate_Inr)
  have v: "next_value c (params st) ob_next = critic c (params st) ob_next ! 0"
    by (simp add: next_value_def)
  have "memory st' = memory st @
             [Record (ob st) a r (fl c (r + fl c (gamma c * (critic c (params st) ob_next ! 0))))]"
    by (simp add: e v mem_add_def fadd_def fmul_def)
  moreover have "td_targets st' = td_targets st @
             [fl c (r + fl c (gamma c * (critic c (params st) ob_next ! 0)))]"
    by (simp add: e v fadd_def fmul_def)
  moreover have "critic c (params st) ob_next ! 0 = net_value c (params st) ''critic'' 0 ob_next"
    by (simp add: critic_def mlp_def)
  ultimately show "\<exists>a st1 ob_next r d e'.
         act c st (ob st) (eps st) = Inr (a, st1)
         \<and> env_step c (env st1) a = ((ob_next, r, d), e')
         \<and> memory st' = memory st @
             [Record (ob st) a r (fl c (r + fl c (gamma c * (critic c (params st) ob_next ! 0))))]
         \<and> td_targets st' = td_targets st @
             [fl c (r + fl c (gamma c * (critic c (params st) ob_next ! 0)))]
         \<and> critic c (params st) ob_next ! 0 = net_value c (params st) ''critic'' 0 ob_next"
    using a s by blast
  show "params st' = params st"
    by (rule generate_fields[OF g])
next
  show "feed_td_targets (feed_dict st2 (reformat recs)) = map td_target_of recs"
    by (simp add: feed_dict_def reformat_def)
qed

theorem td_target_online_bootstrap_witness:
  "\<exists>st'. generate (toy_policy exact 1) (toy_state\<lparr>params := (\<lambda>v. 0)(''critic/w'' := 3)\<rparr>)
           = Inr st'
     \<and> memory st' = [Record (NDArray [1] [0]) 0 1 (37 / 10)]
     \<and> params st' ''critic/w'' = 3"
proof -
  let ?c = "toy_policy exact 1"
  let ?st = "toy_state\<lparr>params := (\<lambda>v. 0)(''critic/w'' := 3)\<rparr>"
  obtain st' where g: "generate ?c ?st = Inr st'"
    by (simp add: toy_eval)
  from td_target_online_bootstrap[of ?c ?st st' toy_state "[]", THEN conjunct1, THEN mp, OF g]
  obtain a st1 ob_next r d e' where
    a: "act ?c ?st (ob ?st) (eps ?st) = Inr (a, st1)"
    and s: "env_step ?c (env st1) a = ((ob_next, r, d), e')"
    and m: "memory st' = memory ?st @
             [Record (ob ?st) a r (fl ?c (r + fl ?c (gamma ?c * (critic ?c (params ?st) ob_next ! 0))))]"
    and p: "params st' = params ?st"
    by blast
  from a have a0: "a = 0" and e1: "env st1 = 0"
    by (auto simp: toy_eval)
  from s a0 e1 have "ob_next = NDArray [1] [1]" "r = 1"
    by (auto simp: toy_policy_def)
  with m a0 have "memory st' = [Record (NDArray [1] [0]) 0 1 (37 / 10)]"
    by (simp add: toy_policy_def toy_state_def mem_empty_def critic_def mlp_def exact_def)
  with g p show ?thesis by simp
qed

text \<open>
  On the small instance with batches of one, every transition is trained on as soon as
  it is generated, and a training step moves the critic's output from \<open>0\<close> to
  \<open>1\<close>: the first target is \<open>1 + 0.9 * 0\<close>, the second \<open>1 + 0.9 * 1\<close>.
\<close>

lemma toy_targets_follow_critic:
  "\<exists>st'. episodes (toy_policy exact 1) (49 / 1000) 2 toy_state = Some (Inr st')
     \<and> fed_td_targets (calls st') = [[1], [19 / 10]]
     \<and> params st' ''critic/w'' = 2"
  by (simp add: toy_eval eval_nat_numeral)

subsection \<open>The learning rates\<close>

text \<open>
  Claim C6. When \<^verbatim>\<open>train\<close> has completed its \<open>n\<close> episodes, each of the two learning
  rates has been multiplied \<open>n\<close> times by its decay rate, whatever the environment and
  the batch size, so whether or not a batch was trained on; in exact arithmetic the
  results are \<open>lr_a * lr_a_decay ^ n\<close> and \<open>lr_c * lr_c_decay ^ n\<close>.
\<close>

theorem learning_rates_decay:
  assumes "train c n ae st = Some (Inr st')"
  shows "length (reward_history st') = nat n
     \<and> cur_lr_a st' = ((\<lambda>x. fmul (fl c) x (lr_a_decay c)) ^^ nat n) (lr_a c)
     \<and> cur_lr_c st' = ((\<lambda>x. fmul (fl c) x (lr_c_decay c)) ^^ nat n) (lr_c c)
     \<and> (fl c = exact \<longrightarrow>
          cur_lr_a st' = lr_a c * lr_a_decay c ^ nat n
        \<and> cur_lr_c st' = lr_c c * lr_c_decay c ^ nat n)"
proof -
  from assms obtain d where d: "eps_drop_of c n ae = Inr d"
    by (auto simp: train_def split: sum.splits)
  let ?st = "st\<lparr>step := 0, episode_reward := 0, reward_history := [],
                 cur_lr_c := lr_c c, cur_lr_a := lr_a c, eps := initial_eps c\<rparr>"
  from assms d have e: "episodes c d (nat n) ?st = Some (Inr st')"
    by (auto simp: train_def split: option.splits sum.splits if_splits)
  from episodes_result[OF e]
  have r: "length (reward_history st') = nat n"
    "cur_lr_a st' = ((\<lambda>x. fmul (fl c) x (lr_a_decay c)) ^^ nat n) (lr_a c)"
    "cur_lr_c st' = ((\<lambda>x. fmul (fl c) x (lr_c_decay c)) ^^ nat n) (lr_c c)"
    by simp_all
  have p: "((\<lambda>x. fmul exact x q) ^^ k) x0 = x0 * q ^ k" for q x0 :: real and k :: nat
    by (induction k) (simp_all add: fmul_def exact_def)
  from r p show ?thesis by simp
qed

theorem learning_rates_decay_witness:
  "\<exists>st'. train (toy_policy exact 5) 3 None toy_state = Some (Inr st')
     \<and> fl (toy_policy exact 5) = exact
     \<and> fed_states (calls st') = []
     \<and> cur_lr_a st' = (1 / 100) * (999 / 1000) ^ 3
     \<and> cur_lr_c st' = (1 / 1000) * (999 / 1000) ^ 3"
proof -
  obtain st' where t: "train (toy_policy exact 5) 3 None toy_state = Some (Inr st')"
    and f: "fed_states (calls st') = []"
    by (simp add: toy_eval train_def eps_drop_of_def annealing_or_def initial_eps_def
        eval_nat_numeral)
  have x: "fl (toy_policy exact 5) = exact"
    by (simp add: toy_policy_def)
  from learning_rates_decay[OF t] x f t show ?thesis
    by (simp add: toy_policy_def exact_def)
qed

subsection \<open>The exploration rate\<close>

text \<open>
  In exact arithmetic the schedule is the intended one: with \<open>m\<close> annealing episodes,
  \<open>eps\<close> after \<open>k\<close> episodes is \<open>0.5 - k * (0.49 / m)\<close> up to \<open>k = m\<close>, where it
  is exactly \<open>0.01\<close>, and it stays there.
\<close>

lemma exact_schedule:
  fixes k m :: nat
  assumes "0 < m"
  shows "(eps_next exact (exact (fsub exact (exact (1 / 2)) (exact (1 / 100)) / exact (real m))) ^^ k)
           (exact (1 / 2))
         = 1 / 2 - real (min k m) * (49 / (100 * real m))"
proof -
  define d where "d = 49 / (100 * real m)"
  have dr: "exact (fsub exact (exact (1 / 2)) (exact (1 / 100)) / exact (real m)) = d"
    by (simp add: exact_def fsub_def d_def)
  have st: "eps_next exact d e = (if 1 / 100 < e then e - d else e)" for e
    by (simp add: eps_next_def exact_def fsub_def)
  have md: "real m * d = 49 / 100"
    using assms by (simp add: d_def)
  have "(eps_next exact d ^^ k) (1 / 2) = 1 / 2 - real (min k m) * d"
  proof (induction k)
    case 0
    show ?case by simp
  next
    case (Suc k)
    show ?case
    proof (cases "k < m")
      case True
      then have "real k < real m" by simp
      moreover have "0 < d" using assms by (simp add: d_def)
      ultimately have "real k * d < real m * d" by simp
      with md have "1 / 100 < 1 / 2 - real k * d" by simp
      with True Suc show ?thesis
        by (simp add: st min_def algebra_simps)
    next
      case False
      with Suc md show ?thesis
        by (simp add: st min_def)
    qed
  qed
  then have "(eps_next exact d ^^ k) (exact (1 / 2)) = 1 / 2 - real (min k m) * d"
    by (simp add: exact_def)
  then show ?thesis
    unfolding dr unfolding d_def .
qed

text \<open>
  Claim C3. The claim says that \<open>eps\<close> goes down by the fixed step until it reaches
  \<open>0.01\<close> and stays at \<open>0.01\<close>: with ten annealing episodes, \<open>0.01\<close> after ten
  episodes and still \<open>0.01\<close> after twenty. In binary64 the ten subtractions of
  \<open>0.049\<close> from \<open>0.5\<close> leave \<open>0.010000000000000078\<close>, which is above the float
  \<open>0.01\<close>, so the test \<^verbatim>\<open>eps > 0.01\<close> passes once more and the eleventh episode
  subtracts again: from then on, and so after twenty episodes,
  \<open>eps = -0.038999999999999924\<close>.
\<close>

theorem epsilon_below_floor:
  assumes "fl c = binary64" and "11 \<le> n"
    and "train c n (Some 10) st = Some (Inr st')"
  shows "eps st' = - (175640385467449 / 4503599627370496) \<and> eps st' < 0"
proof -
  have d: "eps_drop_of c n (Some 10) = Inr (3530822107858469 / 72057594037927936)"
    using binary64_eps_drop
    by (simp add: eps_drop_of_def annealing_or_def initial_eps_def assms(1))
  let ?st = "st\<lparr>step := 0, episode_reward := 0, reward_history := [],
                 cur_lr_c := lr_c c, cur_lr_a := lr_a c, eps := initial_eps c\<rparr>"
  from assms(3) d
  have e: "episodes c (3530822107858469 / 72057594037927936) (nat n) ?st = Some (Inr st')"
    by (auto simp: train_def split: option.splits sum.splits if_splits)
  from assms(2) have n: "11 \<le> nat n" by simp
  from episodes_result[OF e]
  have "eps st' = (eps_next binary64 (3530822107858469 / 72057594037927936) ^^ nat n)
                    (binary64 (1 / 2))"
    by (simp add: assms(1) initial_eps_def)
  with binary64_schedule_late[OF n] show ?thesis by simp
qed

theorem epsilon_below_floor_witness:
  "\<exists>st'. fl (toy_policy binary64 32) = binary64 \<and> (11::int) \<le> 20
     \<and> train (toy_policy binary64 32) 20 (Some 10) toy_state = Some (Inr st')
     \<and> eps st' = - (175640385467449 / 4503599627370496) \<and> eps st' < 0"
proof -
  let ?c = "toy_policy binary64 32"
  let ?st = "toy_state\<lparr>step := 0, episode_reward := 0, reward_history := [],
                 cur_lr_c := lr_c ?c, cur_lr_a := lr_a ?c, eps := initial_eps ?c\<rparr>"
  have x: "fl ?c = binary64"
    by (simp add: toy_policy_def)
  have "0 < batch_size ?c" and "0 < act_size ?c"
    and "\<forall>e a. shape (fst (fst (env_step ?c e a))) = [obs_size ?c]"
    and "\<forall>e a. snd (snd (fst (env_step ?c e a)))"
    and "\<forall>e. shape (fst (env_reset ?c e)) = [obs_size ?c]"
    and "list_all (\<lambda>r. shape (s_of r) = [obs_size ?c]) (memory ?st)"
    by (simp_all add: toy_policy_def toy_state_def act_size_def obs_size_def mem_empty_def)
  from episodes_one_step[OF this] obtain st1 where
    e: "episodes ?c (3530822107858469 / 72057594037927936) (nat 20) ?st = Some (Inr st1)"
    by blast
  from episodes_result[OF e] have "reward_history st1 \<noteq> []"
    by auto
  moreover have "eps_drop_of ?c 20 (Some 10) = Inr (3530822107858469 / 72057594037927936)"
    using binary64_eps_drop
    by (simp add: eps_drop_of_def annealing_or_def initial_eps_def x)
  ultimately have t: "train ?c 20 (Some 10) toy_state = Some (Inr st1)"
    using e by (simp add: train_def)
  have "(11::int) \<le> 20" by simp
  from epsilon_below_floor[OF x this t] x t show ?thesis by simp
qed

subsection \<open>Sampling from the softmax\<close>

lemma length_cumsum [simp]: "length (cumsum acc xs) = length xs"
  by (induction xs arbitrary: acc) simp_all

lemma cumsum_nth:
  "i < length xs \<Longrightarrow> cumsum acc xs ! i = acc + sum_list (take (Suc i) xs)"
proof (induction xs arbitrary: acc i)
  case Nil
  then show ?case by simp
next
  case (Cons x xs)
  show ?case
  proof (cases i)
    case 0
    then show ?thesis by simp
  next
    case (Suc k)
    with Cons.prems have "k < length xs" by simp
    from Cons.IH[OF this, of "acc + x"] Suc show ?thesis by simp
  qed
qed

lemma last_cumsum: "xs \<noteq> [] \<Longrightarrow> last (cumsum acc xs) = acc + sum_list xs"
proof -
  assume n: "xs \<noteq> []"
  then have "cumsum acc xs \<noteq> []" by (cases xs) simp_all
  then have "last (cumsum acc xs) = cumsum acc xs ! (length xs - 1)"
    by (simp add: last_conv_nth)
  also from n have "\<dots> = acc + sum_list (take (Suc (length xs - 1)) xs)"
    by (intro cumsum_nth) (cases xs, simp_all)
  also from n have "\<dots> = acc + sum_list xs"
    by (cases xs) simp_all
  finally show ?thesis .
qed

lemma sum_list_take_mono:
  assumes "\<forall>p\<in>set probs. 0 \<le> (p::real)" and "i \<le> j"
  shows "sum_list (take i probs) \<le> sum_list (take j probs)"
proof -
  from assms(2) obtain k where j: "j = i + k" by (auto simp: le_iff_add)
  have "take (i + k) probs = take i probs @ take k (drop i probs)"
    by (simp add: take_add)
  moreover from assms(1) have "0 \<le> sum_list (take k (drop i probs))"
    by (intro sum_list_nonneg) (auto dest: in_set_takeD in_set_dropD)
  ultimately show ?thesis by (simp add: j)
qed

lemma sum_list_take_le:
  assumes "\<forall>p\<in>set probs. 0 \<le> (p::real)"
  shows "sum_list (take j probs) \<le> sum_list probs"
  using sum_list_take_mono[OF assms, of j "max j (length probs)"] by simp

text \<open>
  Where a draw falls: for probabilities that sum to one, \<open>choice_index\<close> returns
  \<open>j\<close> exactly for the draws between the sum of the first \<open>j\<close> probabilities and
  the sum of the first \<open>j + 1\<close>.
\<close>

lemma choice_index_interval:
  assumes nn: "\<forall>p\<in>set probs. 0 \<le> p" and one: "sum_list probs = 1"
    and j: "j < length probs" and u: "0 \<le> u"
  shows "choice_index probs u = j
     \<longleftrightarrow> sum_list (take j probs) \<le> u \<and> u < sum_list (take (Suc j) probs)"
proof -
  let ?cdf = "cumsum 0 probs"
  let ?P = "\<lambda>c. c / last ?cdf \<le> u"
  let ?L = "length (takeWhile ?P ?cdf)"
  from j have ne: "probs \<noteq> []" by auto
  have last: "last ?cdf = 1" using last_cumsum[OF ne, of 0] one by simp
  have P: "?P (?cdf ! i) \<longleftrightarrow> sum_list (take (Suc i) probs) \<le> u" if "i < length probs" for i
    using that by (simp add: last cumsum_nth)
  have L: "choice_index probs u = ?L" by (simp add: choice_index_def Let_def)
  have Lle: "?L \<le> length probs" using length_takeWhile_le[of ?P ?cdf] by simp
  show ?thesis
  proof
    assume "choice_index probs u = j"
    with L have Lj: "?L = j" by simp
    have "\<not> ?P (?cdf ! ?L)"
      using nth_length_takeWhile[of ?P ?cdf] Lj j by simp
    with P[OF j] Lj have hi: "u < sum_list (take (Suc j) probs)" by simp
    have lo: "sum_list (take j probs) \<le> u"
    proof (cases j)
      case 0
      with u show ?thesis by simp
    next
      case (Suc k)
      with Lj have k: "k < ?L" by simp
      then have "takeWhile ?P ?cdf ! k \<in> set (takeWhile ?P ?cdf)" by (rule nth_mem)
      then have "?P (takeWhile ?P ?cdf ! k)" by (auto dest: set_takeWhileD)
      with takeWhile_nth[OF k] have "?P (?cdf ! k)" by simp
      moreover from Suc j have "k < length probs" by simp
      ultimately show ?thesis using P Suc by simp
    qed
    from lo hi show "sum_list (take j probs) \<le> u \<and> u < sum_list (take (Suc j) probs)" ..
  next
    assume a: "sum_list (take j probs) \<le> u \<and> u < sum_list (take (Suc j) probs)"
    have "?P (?cdf ! i)" if "i < j" for i
    proof -
      from that have "Suc i \<le> j" by simp
      from sum_list_take_mono[OF nn this] a have "sum_list (take (Suc i) probs) \<le> u" by simp
      moreover from that j have "i < length probs" by simp
      ultimately show ?thesis using P by simp
    qed
    then have ge: "j \<le> ?L"
      using j by (intro length_takeWhile_less_P_nth) simp_all
    have "\<not> j < ?L"
    proof
      assume k: "j < ?L"
      then have "takeWhile ?P ?cdf ! j \<in> set (takeWhile ?P ?cdf)" by (rule nth_mem)
      then have "?P (takeWhile ?P ?cdf ! j)" by (auto dest: set_takeWhileD)
      with takeWhile_nth[OF k] have "?P (?cdf ! j)" by simp
      with P[OF j] a show False by simp
    qed
    with ge L show "choice_index probs u = j" by simp
  qed
qed

lemma choice_index_draws:
  assumes "\<forall>p\<in>set probs. 0 \<le> p" and "sum_list probs = 1" and "j < length probs"
  shows "{u. 0 \<le> u \<and> u < 1 \<and> choice_index probs u = j}
           = {sum_list (take j probs) ..< sum_list (take j probs) + probs ! j}"
    and "0 \<le> sum_list (take j probs)"
    and "sum_list (take j probs) + probs ! j \<le> 1"
proof -
  have s: "sum_list (take (Suc j) probs) = sum_list (take j probs) + probs ! j"
    using assms(3) by (simp add: take_Suc_conv_app_nth)
  show lo: "0 \<le> sum_list (take j probs)"
    using assms(1) by (intro sum_list_nonneg) (auto dest: in_set_takeD)
  show hi: "sum_list (take j probs) + probs ! j \<le> 1"
    using sum_list_take_le[OF assms(1), of "Suc j"] assms(2) s by simp
  show "{u. 0 \<le> u \<and> u < 1 \<and> choice_index probs u = j}
           = {sum_list (take j probs) ..< sum_list (take j probs) + probs ! j}"
  proof (intro set_eqI iffI)
    fix u assume "u \<in> {u. 0 \<le> u \<and> u < 1 \<and> choice_index probs u = j}"
    then have "0 \<le> u" "choice_index probs u = j" by simp_all
    with choice_index_interval[OF assms this(1)] s
    show "u \<in> {sum_list (take j probs) ..< sum_list (take j probs) + probs ! j}" by simp
  next
    fix u assume "u \<in> {sum_list (take j probs) ..< sum_list (take j probs) + probs ! j}"
    then have a: "sum_list (take j probs) \<le> u" "u < sum_list (take j probs) + probs ! j"
      by simp_all
    with lo hi have u: "0 \<le> u" "u < 1" by simp_all
    from choice_index_interval[OF assms u(1)] a s have "choice_index probs u = j" by simp
    with u show "u \<in> {u. 0 \<le> u \<and> u < 1 \<and> choice_index probs u = j}" by simp
  qed
qed

lemma sum_list_exp_pos: "xs \<noteq> [] \<Longrightarrow> 0 < sum_list (map exp (xs :: real list))"
proof (induction xs)
  case Nil
  then show ?case by simp
next
  case (Cons x xs)
  have "0 \<le> sum_list (map exp xs)"
    by (intro sum_list_nonneg) auto
  moreover have "0 < exp x" by simp
  ultimately have "0 < exp x + sum_list (map exp xs)" by (rule add_pos_nonneg[rotated])
  then show ?case by simp
qed

lemma softmax_distribution:
  assumes "xs \<noteq> []"
  shows "length (softmax xs) = length xs"
    and "\<forall>p\<in>set (softmax xs). 0 \<le> p"
    and "sum_list (softmax xs) = 1"
    and "j < length xs \<Longrightarrow> softmax xs ! j = exp (xs ! j) / sum_list (map exp xs)"
    and "j < length xs \<Longrightarrow> 0 < softmax xs ! j"
proof -
  let ?Z = "sum_list (map exp xs)"
  from sum_list_exp_pos[OF assms] have Z: "0 < ?Z" .
  show "length (softmax xs) = length xs" by (simp add: softmax_def)
  show "\<forall>p\<in>set (softmax xs). 0 \<le> p"
    using Z by (auto simp: softmax_def)
  have "sum_list (softmax xs) = sum_list (map (\<lambda>x. exp x * inverse ?Z) xs)"
    by (simp add: softmax_def divide_inverse)
  also have "\<dots> = sum_list (map exp xs) * inverse ?Z"
    by (rule sum_list_mult_const)
  also have "\<dots> = 1" using Z by simp
  finally show "sum_list (softmax xs) = 1" .
  show "j < length xs \<Longrightarrow> softmax xs ! j = exp (xs ! j) / ?Z"
    by (simp add: softmax_def)
  show "j < length xs \<Longrightarrow> 0 < softmax xs ! j"
    using Z by (simp add: softmax_def)
qed

lemma actor_row:
  "actor c p x = map (\<lambda>j. net_value c p ''actor'' j x) [0..<act_size c]"
  by (simp add: actor_def mlp_def)

subsection \<open>Action selection\<close>

text \<open>
  Claim C4. In training mode \<^verbatim>\<open>act\<close> draws \<open>u\<close> from \<open>[0, 1)\<close>; when
  \<open>u < epsilon\<close> (for \<open>epsilon\<close> in \<open>[0, 1]\<close> these draws are the interval
  \<open>[0, epsilon)\<close>, of length \<open>epsilon\<close>) it returns the environment's sample and
  evaluates no network. Otherwise it evaluates the actor on the state and returns the
  position of a second draw in the cumulative softmax probabilities; a state that is not
  of the shape \<^verbatim>\<open>(obs_size,)\<close> raises \<^verbatim>\<open>ValueError\<close> there. Outside training mode no
  draw is compared with \<open>epsilon\<close>: the result does not depend on it and is sampled in
  the same way. The sampling is from the softmax distribution: the probabilities are
  positive and sum to one, and the draws of \<open>[0, 1)\<close> that give the action \<open>j\<close> are
  an interval inside \<open>[0, 1)\<close> whose length is the probability of \<open>j\<close>, the
  exponential of its logit over the sum of the exponentials of all logits. So every
  action, not only the most probable one, is returned on draws of positive length.
\<close>

theorem act_epsilon_greedy:
  "(training c \<and> rng st 0 < epsilon \<longrightarrow>
      act c st x epsilon = Inr (act_explore c (snd (random st)))
      \<and> fst (act_explore c (snd (random st))) = fst (action_space_sample c (env st))
      \<and> calls (snd (act_explore c (snd (random st)))) = calls st @ [EnvSample])
   \<and> (training c \<and> \<not> rng st 0 < epsilon \<and> feedable c [x] \<and> 0 < act_size c \<longrightarrow>
      (\<exists>st'. act c st x epsilon
               = Inr (int (choice_index (softmax (actor c (params st) x)) (rng st 1)), st')
         \<and> calls st' = calls st @ [ActorEval [x]]))
   \<and> (\<not> training c \<and> feedable c [x] \<and> 0 < act_size c \<longrightarrow>
      (\<exists>st'. act c st x epsilon
               = Inr (int (choice_index (softmax (actor c (params st) x)) (rng st 0)), st')
         \<and> calls st' = calls st @ [ActorEval [x]]))
   \<and> (\<not> (training c \<and> rng st 0 < epsilon) \<and> \<not> feedable c [x] \<longrightarrow>
      act c st x epsilon = Inl ValueError)
   \<and> (\<not> training c \<longrightarrow> act c st x epsilon = act c st x epsilon')
   \<and> (0 \<le> epsilon \<and> epsilon \<le> 1 \<longrightarrow>
      {u. 0 \<le> u \<and> u < 1 \<and> training c \<and> u < epsilon}
        = (if training c then {0..<epsilon} else {}))
   \<and> (j < act_size c \<longrightarrow>
      {u. 0 \<le> u \<and> u < 1 \<and> choice_index (softmax (actor c p x)) u = j}
        = {sum_list (take j (softmax (actor c p x)))
            ..< sum_list (take j (softmax (actor c p x))) + softmax (actor c p x) ! j}
      \<and> 0 \<le> sum_list (take j (softmax (actor c p x)))
      \<and> sum_list (take j (softmax (actor c p x))) + softmax (actor c p x) ! j \<le> 1
      \<and> softmax (actor c p x) ! j
          = exp (net_value c p ''actor'' j x)
            / sum_list (map (\<lambda>k. exp (net_value c p ''actor'' k x)) [0..<act_size c])
      \<and> 0 < softmax (actor c p x) ! j
      \<and> length (softmax (actor c p x)) = act_size c
      \<and> sum_list (softmax (actor c p x)) = 1)"
proof (intro conjI impI)
  assume "training c \<and> rng st 0 < epsilon"
  then show "act c st x epsilon = Inr (act_explore c (snd (random st)))"
    by (simp add: act_def random_def Let_def split_def)
  show "fst (act_explore c (snd (random st))) = fst (action_space_sample c (env st))"
    by (simp add: act_explore_def random_def Let_def split_def)
  show "calls (snd (act_explore c (snd (random st)))) = calls st @ [EnvSample]"
    by (simp add: act_explore_def random_def Let_def split_def)
next
  assume a: "training c \<and> \<not> rng st 0 < epsilon \<and> feedable c [x] \<and> 0 < act_size c"
  have "length (actor_proba c (params st) x) = act_size c"
    by (simp add: actor_proba_def softmax_def actor_def mlp_def)
  with a show "\<exists>st'. act c st x epsilon
               = Inr (int (choice_index (softmax (actor c (params st) x)) (rng st 1)), st')
         \<and> calls st' = calls st @ [ActorEval [x]]"
    by (simp add: act_def act_infer_def choice_def random_def actor_proba_def Let_def split_def)
next
  assume a: "\<not> training c \<and> feedable c [x] \<and> 0 < act_size c"
  have "length (actor_proba c (params st) x) = act_size c"
    by (simp add: actor_proba_def softmax_def actor_def mlp_def)
  with a show "\<exists>st'. act c st x epsilon
               = Inr (int (choice_index (softmax (actor c (params st) x)) (rng st 0)), st')
         \<and> calls st' = calls st @ [ActorEval [x]]"
    by (simp add: act_def act_infer_def choice_def random_def actor_proba_def Let_def split_def)
next
  assume "\<not> (training c \<and> rng st 0 < epsilon) \<and> \<not> feedable c [x]"
  then show "act c st x epsilon = Inl ValueError"
    by (auto simp: act_def act_infer_def random_def Let_def split_def)
next
  assume "\<not> training c"
  then show "act c st x epsilon = act c st x epsilon'"
    by (simp add: act_def)
next
  assume "0 \<le> epsilon \<and> epsilon \<le> 1"
  then show "{u. 0 \<le> u \<and> u < 1 \<and> training c \<and> u < epsilon}
        = (if training c then {0..<epsilon} else {})"
    by auto
next
  assume j: "j < act_size c"
  let ?xs = "actor c p x"
  from j have len: "j < length ?xs" and ne: "?xs \<noteq> []"
    by (auto simp: actor_row)
  note sm = softmax_distribution[OF ne]
  from len sm(1) have jl: "j < length (softmax ?xs)" by simp
  note dr = choice_index_draws[OF sm(2) sm(3) jl]
  show "{u. 0 \<le> u \<and> u < 1 \<and> choice_index (softmax ?xs) u = j}
        = {sum_list (take j (softmax ?xs)) ..< sum_list (take j (softmax ?xs)) + softmax ?xs ! j}"
    by (rule dr)
  show "0 \<le> sum_list (take j (softmax ?xs))" by (rule dr)
  show "sum_list (take j (softmax ?xs)) + softmax ?xs ! j \<le> 1" by (rule dr)
  from sm(4)[OF len] j
  show "softmax ?xs ! j
          = exp (net_value c p ''actor'' j x)
            / sum_list (map (\<lambda>k. exp (net_value c p ''actor'' k x)) [0..<act_size c])"
    by (simp add: actor_row comp_def)
  show "0 < softmax ?xs ! j" by (rule sm(5)[OF len])
  from sm(1) show "length (softmax ?xs) = act_size c" by (simp add: actor_row)
  show "sum_list (softmax ?xs) = 1" by (rule sm(3))
qed

text \<open>
  On the policy whose logits are \<open>0\<close> and \<open>ln 3\<close> the probabilities are \<open>1/4\<close> and
  \<open>3/4\<close>: a second draw of \<open>0.2\<close> gives the action \<open>0\<close>, which is not the most
  probable one, and a second draw of \<open>0.3\<close> gives the action \<open>1\<close>.
\<close>

lemma skewed_probs: "softmax (actor skewed_policy p x) = [1 / 4, 3 / 4]"
  by (simp add: skewed_policy_def toy_policy_def softmax_def actor_def mlp_def act_size_def
      numeral_2_eq_2)

lemma skewed_basic:
  "training skewed_policy" "act_size skewed_policy = 2"
  "feedable skewed_policy [NDArray [1] [0]]"
  "\<not> feedable skewed_policy [NDArray [2, 2] [0, 0, 0, 0]]"
  "action_space_sample skewed_policy = (\<lambda>t. (0, t))"
  by (simp_all add: skewed_policy_def toy_policy_def act_size_def feedable_def obs_size_def)

theorem act_epsilon_greedy_witness:
  "act skewed_policy (toy_state\<lparr>rng := (\<lambda>i. 2 / 5)\<rparr>) (NDArray [1] [0]) (1 / 2)
     = Inr (0, toy_state\<lparr>rng := (\<lambda>i. 2 / 5), calls := [EnvSample]\<rparr>)
   \<and> (\<exists>st'. act skewed_policy (toy_state\<lparr>rng := (\<lambda>i. if i = 0 then 7 / 10 else 1 / 5)\<rparr>)
              (NDArray [1] [0]) (1 / 2) = Inr (0, st')
           \<and> calls st' = [ActorEval [NDArray [1] [0]]])
   \<and> (\<exists>st'. act skewed_policy (toy_state\<lparr>rng := (\<lambda>i. if i = 0 then 7 / 10 else 3 / 10)\<rparr>)
              (NDArray [1] [0]) (1 / 2) = Inr (1, st')
           \<and> calls st' = [ActorEval [NDArray [1] [0]]])
   \<and> (\<exists>st'. act (skewed_policy\<lparr>training := False\<rparr>) (toy_state\<lparr>rng := (\<lambda>i. 1 / 5)\<rparr>)
              (NDArray [1] [0]) 1 = Inr (0, st')
           \<and> calls st' = [ActorEval [NDArray [1] [0]]])
   \<and> act (skewed_policy\<lparr>training := False\<rparr>) (toy_state\<lparr>rng := (\<lambda>i. 1 / 5)\<rparr>)
         (NDArray [1] [0]) 1
       = act (skewed_policy\<lparr>training := False\<rparr>) (toy_state\<lparr>rng := (\<lambda>i. 1 / 5)\<rparr>)
           (NDArray [1] [0]) 0
   \<and> act skewed_policy (toy_state\<lparr>rng := (\<lambda>i. 7 / 10)\<rparr>) (NDArray [2, 2] [0, 0, 0, 0]) (1 / 2)
       = Inl ValueError
   \<and> {u::real. 0 \<le> u \<and> u < 1 \<and> training skewed_policy \<and> u < 1 / 2} = {0..<1 / 2}
   \<and> {u. 0 \<le> u \<and> u < 1 \<and> choice_index (softmax (actor skewed_policy (\<lambda>v. 0) (NDArray [1] [0]))) u = 0}
       = {0..<1 / 4}
   \<and> {u. 0 \<le> u \<and> u < 1 \<and> choice_index (softmax (actor skewed_policy (\<lambda>v. 0) (NDArray [1] [0]))) u = 1}
       = {1 / 4..<1}"
proof (intro conjI)
  let ?x = "NDArray [1] [0]"
  let ?s1 = "toy_state\<lparr>rng := (\<lambda>i. 2 / 5)\<rparr>"
  have "act skewed_policy ?s1 ?x (1 / 2) = Inr (act_explore skewed_policy (snd (random ?s1)))"
    using act_epsilon_greedy[of skewed_policy ?s1 "1 / 2" ?x, THEN conjunct1]
    by (simp add: skewed_basic)
  then show "act skewed_policy ?s1 ?x (1 / 2)
     = Inr (0, toy_state\<lparr>rng := (\<lambda>i. 2 / 5), calls := [EnvSample]\<rparr>)"
    by (simp add: act_explore_def random_def skewed_basic toy_state_def)
next
  let ?x = "NDArray [1] [0]"
  let ?s = "toy_state\<lparr>rng := (\<lambda>i. if i = 0 then 7 / 10 else 1 / 5)\<rparr>"
  have h: "training skewed_policy \<and> \<not> rng ?s 0 < 1 / 2 \<and> feedable skewed_policy [?x]
      \<and> 0 < act_size skewed_policy"
    using skewed_basic by simp
  from act_epsilon_greedy[of skewed_policy ?s "1 / 2" ?x, THEN conjunct2, THEN conjunct1,
      THEN mp, OF h]
  show "\<exists>st'. act skewed_policy ?s ?x (1 / 2) = Inr (0, st') \<and> calls st' = [ActorEval [?x]]"
    by (simp add: skewed_probs choice_index_def toy_state_def)
next
  let ?x = "NDArray [1] [0]"
  let ?s = "toy_state\<lparr>rng := (\<lambda>i. if i = 0 then 7 / 10 else 3 / 10)\<rparr>"
  have h: "training skewed_policy \<and> \<not> rng ?s 0 < 1 / 2 \<and> feedable skewed_policy [?x]
      \<and> 0 < act_size skewed_policy"
    using skewed_basic by simp
  from act_epsilon_greedy[of skewed_policy ?s "1 / 2" ?x, THEN conjunct2, THEN conjunct1,
      THEN mp, OF h]
  show "\<exists>st'. act skewed_policy ?s ?x (1 / 2) = Inr (1, st') \<and> calls st' = [ActorEval [?x]]"
    by (simp add: skewed_probs choice_index_def toy_state_def)
next
  let ?x = "NDArray [1] [0]"
  let ?c = "skewed_policy\<lparr>training := False\<rparr>"
  let ?s = "toy_state\<lparr>rng := (\<lambda>i. 1 / 5)\<rparr>"
  have b: "\<not> training ?c" "feedable ?c [?x]" "act_size ?c = 2"
    "\<And>p x. softmax (actor ?c p x) = [1 / 4, 3 / 4]"
    by (simp_all add: skewed_policy_def toy_policy_def act_size_def feedable_def obs_size_def
        softmax_def actor_def mlp_def numeral_2_eq_2)
  have h: "\<not> training ?c \<and> feedable ?c [?x] \<and> 0 < act_size ?c"
    using b by simp
  from act_epsilon_greedy[of ?c ?s 1 ?x, THEN conjunct2, THEN conjunct2, THEN conjunct1,
      THEN mp, OF h]
  show "\<exists>st'. act ?c ?s ?x 1 = Inr (0, st') \<and> calls st' = [ActorEval [?x]]"
    by (simp add: b choice_index_def toy_state_def)
next
  let ?c = "skewed_policy\<lparr>training := False\<rparr>"
  let ?s = "toy_state\<lparr>rng := (\<lambda>i. 1 / 5)\<rparr>"
  have h: "\<not> training ?c" by simp
  from act_epsilon_greedy[of ?c ?s 1 "NDArray [1] [0]" 0, THEN conjunct2, THEN conjunct2,
      THEN conjunct2, THEN conjunct2, THEN conjunct1, THEN mp, OF h]
  show "act ?c ?s (NDArray [1] [0]) 1 = act ?c ?s (NDArray [1] [0]) 0" .
next
  let ?s = "toy_state\<lparr>rng := (\<lambda>i. 7 / 10)\<rparr>"
  have h: "\<not> (training skewed_policy \<and> rng ?s 0 < 1 / 2)
      \<and> \<not> feedable skewed_policy [NDArray [2, 2] [0, 0, 0, 0]]"
    using skewed_basic by simp
  from act_epsilon_greedy[of skewed_policy ?s "1 / 2" "NDArray [2, 2] [0, 0, 0, 0]",
        THEN conjunct2, THEN conjunct2, THEN conjunct2, THEN conjunct1, THEN mp, OF h]
  show "act skewed_policy ?s (NDArray [2, 2] [0, 0, 0, 0]) (1 / 2) = Inl ValueError" .
next
  show "{u::real. 0 \<le> u \<and> u < 1 \<and> training skewed_policy \<and> u < 1 / 2} = {0..<1 / 2}"
    using act_epsilon_greedy[of skewed_policy _ "1 / 2", THEN conjunct2, THEN conjunct2,
        THEN conjunct2, THEN conjunct2, THEN conjunct2, THEN conjunct1]
    by (simp add: skewed_basic)
next
  show "{u. 0 \<le> u \<and> u < 1 \<and> choice_index (softmax (actor skewed_policy (\<lambda>v. 0) (NDArray [1] [0]))) u = 0}
       = {0..<1 / 4}"
    using act_epsilon_greedy[where c = skewed_policy and j = 0 and p = "\<lambda>v. 0"
          and x = "NDArray [1] [0]", THEN conjunct2,
        THEN conjunct2, THEN conjunct2, THEN conjunct2, THEN conjunct2, THEN conjunct2]
    by (simp add: skewed_basic skewed_probs)
next
  show "{u. 0 \<le> u \<and> u < 1 \<and> choice_index (softmax (actor skewed_policy (\<lambda>v. 0) (NDArray [1] [0]))) u = 1}
       = {1 / 4..<1}"
    using act_epsilon_greedy[where c = skewed_policy and j = 1 and p = "\<lambda>v. 0"
          and x = "NDArray [1] [0]", THEN conjunct2,
        THEN conjunct2, THEN conjunct2, THEN conjunct2, THEN conjunct2, THEN conjunct2]
    by (simp add: skewed_basic skewed_probs)
qed

subsection \<open>What a run steps and trains on\<close>

lemma stepped_actions_append [simp]:
  "stepped_actions (xs @ ys) = stepped_actions xs @ stepped_actions ys"
  by (induction xs rule: stepped_actions.induct) simp_all

lemma fed_states_append [simp]:
  "fed_states (xs @ ys) = fed_states xs @ fed_states ys"
  by (induction xs rule: fed_states.induct) simp_all

lemma act_stepped:
  assumes "act c st x e = Inr (a, st')"
  shows "stepped_actions (calls st') = stepped_actions (calls st)"
    "fed_states (calls st') = fed_states (calls st)"
  using act_calls[OF assms] by auto

lemma generate_trace:
  assumes "generate c st = Inr st'"
  shows "\<exists>a st1. act c st (ob st) (eps st) = Inr (a, st1)
          \<and> calls st' = calls st1 @ [EnvStep a, CriticEval [fst (fst (env_step c (env st1) a))]]
          \<and> env st' = snd (env_step c (env st1) a)
          \<and> actions st' = actions st @ [a]
          \<and> stepped_actions (calls st') = stepped_actions (calls st) @ [a]
          \<and> fed_states (calls st') = fed_states (calls st)"
proof -
  from assms obtain a st1 ob_next r d e' where
    a: "act c st (ob st) (eps st) = Inr (a, st1)"
    and s: "env_step c (env st1) a = ((ob_next, r, d), e')"
    and e: "st' = st1\<lparr>env := e',
              calls := calls st1 @ [EnvStep a, CriticEval [ob_next]],
              step := step st + 1,
              episode_reward := fadd (fl c) (episode_reward st) r,
              obs := obs st @ [obs_to_inputs (ob st)],
              actions := actions st @ [a],
              rewards := rewards st @ [r],
              td_targets := td_targets st @
                [fadd (fl c) r (fmul (fl c) (gamma c) (next_value c (params st) ob_next))],
              memory := mem_add (Record (ob st) a r
                (fadd (fl c) r (fmul (fl c) (gamma c) (next_value c (params st) ob_next))))
                (memory st),
              ob := ob_next, done_flag := d\<rparr>"
    by (rule generate_Inr)
  have "calls st' = calls st1 @ [EnvStep a, CriticEval [fst (fst (env_step c (env st1) a))]]"
    by (simp add: e s)
  moreover have "env st' = snd (env_step c (env st1) a)" by (simp add: e s)
  moreover have "actions st' = actions st @ [a]" by (simp add: e)
  moreover have "stepped_actions (calls st') = stepped_actions (calls st) @ [a]"
    by (simp add: e act_stepped[OF a])
  moreover have "fed_states (calls st') = fed_states (calls st)"
    by (simp add: e act_stepped[OF a])
  ultimately show ?thesis using a by blast
qed

lemma drain_trace:
  assumes "drain c st = Some (Inr st')"
  shows "stepped_actions (calls st') = stepped_actions (calls st)"
proof -
  have "\<forall>st'. res = Inr st' \<longrightarrow> stepped_actions (calls st') = stepped_actions (calls st)"
    if "drain c st = Some res" for res
  proof (rule drain.raw_induct[OF _ that], goal_cases)
    case (1 drain' c st res)
    show ?case
    proof (cases "batch_size c \<le> mem_size (memory st)")
      case True
      then obtain b mem' where p: "mem_pop (batch_size c) (memory st) = Inr (b, mem')"
        by (simp add: mem_pop_def)
      show ?thesis
      proof (cases "feedable c (batch_s b)")
        case f: True
        let ?st = "st\<lparr>memory := mem',
                       params := run_train_ops c (params st) (feed_dict st b),
                       calls := calls st @ [TrainOps (feed_dict st b)]\<rparr>"
        from 1(2) True p f have "drain' c ?st = Some res" by simp
        from 1(1)[OF this] show ?thesis by simp
      next
        case False
        with 1(2) True p show ?thesis by auto
      qed
    next
      case False
      with 1 show ?thesis by auto
    qed
  qed
  with assms show ?thesis by blast
qed

lemma step_loop_trace:
  assumes "step_loop c st = Some (Inr st')"
  shows "(mem_size (memory st) < batch_size c \<or> \<not> done_flag st
            \<longrightarrow> mem_size (memory st') < batch_size c)
     \<and> (\<forall>pre. stepped_actions (calls st) = pre @ actions st
            \<longrightarrow> stepped_actions (calls st') = pre @ actions st')"
proof -
  have "\<forall>st'. res = Inr st' \<longrightarrow>
      (mem_size (memory st) < batch_size c \<or> \<not> done_flag st
            \<longrightarrow> mem_size (memory st') < batch_size c)
     \<and> (\<forall>pre. stepped_actions (calls st) = pre @ actions st
            \<longrightarrow> stepped_actions (calls st') = pre @ actions st')"
    if "step_loop c st = Some res" for res
  proof (rule step_loop.raw_induct[OF _ that], goal_cases)
    case (1 step_loop' c st res)
    show ?case
    proof (cases "done_flag st")
      case True
      with 1(2) show ?thesis by auto
    next
      case False
      show ?thesis
      proof (cases "generate c st")
        case (Inl e)
        with 1(2) False show ?thesis by auto
      next
        case (Inr g)
        from drain_terminates obtain r where d: "drain c g = Some r" by blast
        show ?thesis
        proof (cases r)
          case (Inl e)
          with 1(2) False Inr d show ?thesis by auto
        next
          case r: (Inr st1)
          from drain_fields[OF d[unfolded r]]
          have m: "mem_size (memory st1) < batch_size c" and a: "actions st1 = actions g"
            by simp_all
          from generate_trace[OF Inr] obtain x where
            g1: "actions g = actions st @ [x]"
            and g2: "stepped_actions (calls g) = stepped_actions (calls st) @ [x]"
            by blast
          from 1(2) False Inr d r have "step_loop' c st1 = Some res" by simp
          from 1(1)[OF this] m a drain_trace[OF d[unfolded r]] g1 g2
          show ?thesis by auto
        qed
      qed
    qed
  qed
  with assms show ?thesis by blast
qed

lemma episode_start_trace:
  assumes "episode_start c st = Inr st'"
  shows "stepped_actions (calls st') = stepped_actions (calls st)"
    "fed_states (calls st') = fed_states (calls st)"
proof -
  let ?st1 = "st\<lparr>env := snd (env_reset c (env st)), calls := calls st @ [EnvReset],
                  ob := fst (env_reset c (env st))\<rparr>"
  from assms obtain a st2 where a: "act c ?st1 (ob ?st1) (default_epsilon c) = Inr (a, st2)"
    and e: "st' = st2\<lparr>done_flag := False, obs := [], actions := [], rewards := [],
                      td_targets := []\<rparr>"
    by (auto simp: episode_start_def Let_def split_def split: sum.splits)
  show "stepped_actions (calls st') = stepped_actions (calls st)"
    by (simp add: e act_stepped[OF a])
  show "fed_states (calls st') = fed_states (calls st)"
    by (simp add: e act_stepped[OF a])
qed

subsection \<open>The local list of flattened observations is write-only\<close>











subsection \<open>What the memory holds\<close>




subsection \<open>Episode boundaries\<close>

lemma episode_Inr:
  assumes "episode c d st = Some (Inr st')"
  obtains st0 st1 where "episode_start c st = Inr st0" "step_loop c st0 = Some (Inr st1)"
    "st' = episode_end c d st1"
  using assms
  by (auto simp: episode_def split: sum.splits option.splits)

text \<open>
  Claim C9. Neither the tail nor the head of the episode loop touches the memory: what
  the step loop leaves in it, fewer than \<open>batch_size\<close> records, is there when the
  next episode starts. So a batch can mix episodes: on the small instance with batches
  of two, the first episode leaves its one record in the memory and trains on nothing,
  and the batch trained on in the second episode holds the state of the first episode
  and the state of the second.
\<close>

theorem memory_survives_episode_boundary:
  "memory (episode_end c d st) = memory st
   \<and> (episode_start c st = Inr st0 \<longrightarrow> memory st0 = memory st)
   \<and> (episode c d st = Some (Inr st') \<longrightarrow>
        mem_size (memory st') < batch_size c
        \<and> (\<forall>st0'. episode_start c st' = Inr st0' \<longrightarrow> memory st0' = memory st'))
   \<and> (\<exists>st1 st2.
        episodes (toy_policy exact 2) (49 / 1000) 1 toy_state = Some (Inr st1)
        \<and> map s_of (memory st1) = [NDArray [1] [0]]
        \<and> fed_states (calls st1) = []
        \<and> episodes (toy_policy exact 2) (49 / 1000) 2 toy_state = Some (Inr st2)
        \<and> fed_states (calls st2) = [[NDArray [1] [0], NDArray [1] [1]]])"
proof (intro conjI impI allI)
  show "memory (episode_end c d st) = memory st"
    by (simp add: episode_end_def)
  show "\<exists>st1 st2.
        episodes (toy_policy exact 2) (49 / 1000) 1 toy_state = Some (Inr st1)
        \<and> map s_of (memory st1) = [NDArray [1] [0]]
        \<and> fed_states (calls st1) = []
        \<and> episodes (toy_policy exact 2) (49 / 1000) 2 toy_state = Some (Inr st2)
        \<and> fed_states (calls st2) = [[NDArray [1] [0], NDArray [1] [1]]]"
    by (simp add: toy_eval eval_nat_numeral)
next
  assume "episode_start c st = Inr st0"
  then show "memory st0 = memory st" by (rule episode_start_Inr)
next
  assume e: "episode c d st = Some (Inr st')"
  then obtain s0 s1 where s0: "episode_start c st = Inr s0"
    and s: "step_loop c s0 = Some (Inr s1)" and st': "st' = episode_end c d s1"
    by (rule episode_Inr)
  from step_loop_trace[OF s] episode_start_Inr(7)[OF s0]
  have "mem_size (memory s1) < batch_size c" by blast
  then show "mem_size (memory st') < batch_size c"
    by (simp add: st' episode_end_def)
next
  fix st0' assume "episode_start c st' = Inr st0'"
  then show "memory st0' = memory st'" by (rule episode_start_Inr)
qed

theorem memory_survives_episode_boundary_witness:
  "\<exists>st' st0. episode (toy_policy exact 2) (49 / 1000) toy_state = Some (Inr st')
     \<and> mem_size (memory st') < batch_size (toy_policy exact 2)
     \<and> map s_of (memory st') = [NDArray [1] [0]]
     \<and> episode_start (toy_policy exact 2) st' = Inr st0
     \<and> memory st0 = memory st'"
proof -
  obtain st' where e: "episode (toy_policy exact 2) (49 / 1000) toy_state = Some (Inr st')"
    and m: "map s_of (memory st') = [NDArray [1] [0]]"
    by (simp add: toy_eval)
  from e have "\<exists>st0. episode_start (toy_policy exact 2) st' = Inr st0"
    by (auto simp: toy_eval)
  then obtain st0 where s: "episode_start (toy_policy exact 2) st' = Inr st0" by blast
  from memory_survives_episode_boundary[of "toy_policy exact 2" "49 / 1000" toy_state _ st',
      THEN conjunct2, THEN conjunct2, THEN conjunct1, THEN mp, OF e]
  have b: "mem_size (memory st') < batch_size (toy_policy exact 2)"
    and a: "\<forall>st0'. episode_start (toy_policy exact 2) st' = Inr st0' \<longrightarrow> memory st0' = memory st'"
    by simp_all
  from a[THEN spec, THEN mp, OF s] have "memory st0 = memory st'" .
  with e m s b show ?thesis
    by (intro exI[of _ st'] exI[of _ st0]) (simp only: simp_thms)
qed

text \<open>
  Claim C10. The head of the episode loop calls \<^verbatim>\<open>act\<close> once, on the observation of
  \<^verbatim>\<open>reset\<close> with the default \<open>0.1\<close>: only the state that call leaves behind (the
  random stream, the environment's sampler, the log) goes on, its action goes nowhere
  and no environment step is made. Every completed pass of the step loop gets its action
  from \<^verbatim>\<open>act(ob, eps)\<close> and passes that one to \<^verbatim>\<open>env.step\<close>; over a whole episode
  the actions stepped are exactly the list \<^verbatim>\<open>actions\<close> that the passes built.
\<close>

theorem initial_act_discarded:
  "(let (ob0, e') = env_reset c (env st);
        st1 = st\<lparr>env := e', calls := calls st @ [EnvReset], ob := ob0\<rparr>
    in episode_start c st =
         map_sum id
           (\<lambda>(a, s). s\<lparr>done_flag := False, obs := [], actions := [], rewards := [],
                        td_targets := []\<rparr>)
           (act c st1 ob0 (fl c (1 / 10))))
   \<and> (episode_start c st = Inr st0 \<longrightarrow>
        stepped_actions (calls st0) = stepped_actions (calls st) \<and> actions st0 = [])
   \<and> (generate c st = Inr st' \<longrightarrow>
        (\<exists>a st1. act c st (ob st) (eps st) = Inr (a, st1)
           \<and> calls st' = calls st1 @ [EnvStep a, CriticEval [fst (fst (env_step c (env st1) a))]]
           \<and> env st' = snd (env_step c (env st1) a)
           \<and> actions st' = actions st @ [a]))
   \<and> (episode c d st = Some (Inr st') \<longrightarrow>
        stepped_actions (calls st') = stepped_actions (calls st) @ actions st')"
proof (intro conjI impI)
  show "let (ob0, e') = env_reset c (env st);
        st1 = st\<lparr>env := e', calls := calls st @ [EnvReset], ob := ob0\<rparr>
    in episode_start c st =
         map_sum id
           (\<lambda>(a, s). s\<lparr>done_flag := False, obs := [], actions := [], rewards := [],
                        td_targets := []\<rparr>)
           (act c st1 ob0 (fl c (1 / 10)))"
    by (simp add: episode_start_def default_epsilon_def Let_def split_def split: sum.splits)
next
  assume s: "episode_start c st = Inr st0"
  show "stepped_actions (calls st0) = stepped_actions (calls st)"
    by (rule episode_start_trace[OF s])
  show "actions st0 = []"
    by (rule episode_start_Inr[OF s])
next
  assume g: "generate c st = Inr st'"
  from generate_trace[OF g]
  show "\<exists>a st1. act c st (ob st) (eps st) = Inr (a, st1)
           \<and> calls st' = calls st1 @ [EnvStep a, CriticEval [fst (fst (env_step c (env st1) a))]]
           \<and> env st' = snd (env_step c (env st1) a)
           \<and> actions st' = actions st @ [a]"
    by blast
next
  assume e: "episode c d st = Some (Inr st')"
  then obtain s0 s1 where s0: "episode_start c st = Inr s0"
    and s: "step_loop c s0 = Some (Inr s1)" and st': "st' = episode_end c d s1"
    by (rule episode_Inr)
  have "stepped_actions (calls s0) = stepped_actions (calls st) @ actions s0"
    by (simp add: episode_start_trace[OF s0] episode_start_Inr[OF s0])
  with step_loop_trace[OF s]
  have "stepped_actions (calls s1) = stepped_actions (calls st) @ actions s1" by blast
  then show "stepped_actions (calls st') = stepped_actions (calls st) @ actions st'"
    by (simp add: st' episode_end_def)
qed

text \<open>
  On an environment whose sampler returns \<open>0\<close> and \<open>1\<close> in turn, the head of the
  episode draws the action \<open>0\<close> and the only action stepped is \<open>1\<close>.
\<close>

theorem initial_act_discarded_witness:
  "\<exists>st'. episode ((toy_policy exact 2)\<lparr>action_space_sample := (\<lambda>t. (int (t mod 2), Suc t))\<rparr>)
            (49 / 1000) (toy_state\<lparr>eps := 1 / 2\<rparr>) = Some (Inr st')
     \<and> calls st' = [EnvReset, EnvSample, EnvSample, EnvStep 1, CriticEval [NDArray [1] [3]]]
     \<and> actions st' = [1]
     \<and> stepped_actions (calls st') = stepped_actions (calls (toy_state\<lparr>eps := 1 / 2\<rparr>)) @ actions st'
     \<and> fst (action_space_sample
              ((toy_policy exact 2)\<lparr>action_space_sample := (\<lambda>t. (int (t mod 2), Suc t))\<rparr>)
              (env (toy_state\<lparr>eps := 1 / 2\<rparr>))) = 0"
proof -
  let ?c = "(toy_policy exact 2)\<lparr>action_space_sample := (\<lambda>t. (int (t mod 2), Suc t))\<rparr>"
  obtain st' where
    e: "episode ?c (49 / 1000) (toy_state\<lparr>eps := 1 / 2\<rparr>) = Some (Inr st')"
    and m: "calls st' = [EnvReset, EnvSample, EnvSample, EnvStep 1, CriticEval [NDArray [1] [3]]]"
    and a: "actions st' = [1]"
    by (simp add: toy_eval)
  from initial_act_discarded[of ?c "toy_state\<lparr>eps := 1 / 2\<rparr>" _ st' "49 / 1000",
      THEN conjunct2, THEN conjunct2, THEN conjunct2, THEN mp, OF e]
  have "stepped_actions (calls st')
        = stepped_actions (calls (toy_state\<lparr>eps := 1 / 2\<rparr>)) @ actions st'" .
  moreover have "fst (action_space_sample ?c (env (toy_state\<lparr>eps := 1 / 2\<rparr>))) = 0"
    by (simp add: toy_policy_def toy_state_def)
  ultimately show ?thesis using e m a
    by (intro exI[of _ st']) (simp only: simp_thms)
qed

subsection \<open>The critic and the temporal-difference error\<close>

lemma critic_row: "critic c p x = [net_value c p ''critic'' 0 x]"
  by (simp add: critic_def mlp_def)

lemma critic_d_row:
  "critic_d c p \<theta> x =
     [(net_value c p ''critic'' 0 x,
       if fst \<theta> \<in> set (mlp_vars c ''critic'') then net_deriv c p ''critic'' \<theta> 0 x else 0)]"
  by (simp add: critic_d_def mlp_d_def)

lemma fst_reduce_sum: "fst (reduce_sum xs) = sum_list (map fst xs)"
  by (induction xs) (simp_all add: reduce_sum_def d_add_def)

lemma snd_reduce_sum: "snd (reduce_sum xs) = sum_list (map snd xs)"
  by (induction xs) (simp_all add: reduce_sum_def d_add_def)

lemma broadcast_mul_single: "broadcast_mul [x] ys = map (d_mul x) ys"
  by (cases ys; cases "tl ys") (auto simp: broadcast_mul_def)

lemma sum_indicator:
  "sum_list (map (\<lambda>j. if int j = a then v else 0) [0..<n])
     = (if 0 \<le> a \<and> a < int n then (v::real) else 0)"
  by (induction n) auto

lemma pred_q_value:
  "fst (pred_q c p \<theta> x a)
     = (if 0 \<le> a \<and> a < int (act_size c) then net_value c p ''critic'' 0 x else 0)"
proof -
  have "map fst (map (d_mul (v, t)) (one_hot a n)) = map (\<lambda>j. if int j = a then v else 0) [0..<n]"
    for v t :: real and n
    by (simp add: one_hot_def d_mul_def d_const_def comp_def)
  then show ?thesis
    by (simp add: pred_q_def critic_d_row broadcast_mul_single fst_reduce_sum sum_indicator)
qed

text \<open>
  Claim C2. The claim says that the critic has one output per action and that the error
  is taken against the output selected by the action taken, and the source says the
  same: the comment \<^verbatim>\<open>Critic: action value (Q-value)\<close>, the names \<^verbatim>\<open>pred_q\<close> and
  \<^verbatim>\<open>q_acted\<close>, the one-hot mask of the actions. The code does not do it. The last
  layer of the critic is built with the width one (\<^verbatim>\<open>self.layer_sizes + [1]\<close>), so
  the critic has a single output, whatever the number of actions; the one-hot row is
  multiplied onto it by broadcasting and the products are summed, which returns that
  single output for every valid action. The error is the distance of the target from
  it, the same for all actions.
\<close>

theorem td_error_state_value:
  "length (critic c p x) = 1
   \<and> (0 \<le> a \<and> a < int (act_size c) \<longrightarrow>
        fst (pred_q c p \<theta> x a) = critic c p x ! 0
        \<and> fst (td_error c p \<theta> x a t) = \<bar>t - critic c p x ! 0\<bar>)
   \<and> (0 \<le> a \<and> a < int (act_size c) \<and> 0 \<le> a' \<and> a' < int (act_size c) \<longrightarrow>
        fst (td_error c p \<theta> x a t) = fst (td_error c p \<theta> x a' t))"
  by (simp add: critic_row td_error_def d_abs_def d_sub_def d_const_def pred_q_value)

theorem td_error_state_value_witness:
  "length (critic (toy_policy exact 1) ((\<lambda>v. 0)(''critic/w'' := 3)) (NDArray [1] [0])) = 1
   \<and> act_size (toy_policy exact 1) = 2
   \<and> one_hot 0 (act_size (toy_policy exact 1)) \<noteq> one_hot 1 (act_size (toy_policy exact 1))
   \<and> fst (pred_q (toy_policy exact 1) ((\<lambda>v. 0)(''critic/w'' := 3)) (''critic/w'', 0)
            (NDArray [1] [0]) 0) = 3
   \<and> fst (pred_q (toy_policy exact 1) ((\<lambda>v. 0)(''critic/w'' := 3)) (''critic/w'', 0)
            (NDArray [1] [0]) 1) = 3
   \<and> fst (td_error (toy_policy exact 1) ((\<lambda>v. 0)(''critic/w'' := 3)) (''critic/w'', 0)
            (NDArray [1] [0]) 0 1) = 2
   \<and> fst (td_error (toy_policy exact 1) ((\<lambda>v. 0)(''critic/w'' := 3)) (''critic/w'', 0)
            (NDArray [1] [0]) 1 1) = 2
   \<and> fst (td_error (toy_policy exact 1) ((\<lambda>v. 0)(''critic/w'' := 3)) (''critic/w'', 0)
            (NDArray [1] [0]) 0 1)
       = fst (td_error (toy_policy exact 1) ((\<lambda>v. 0)(''critic/w'' := 3)) (''critic/w'', 0)
            (NDArray [1] [0]) 1 1)"
proof -
  let ?c = "toy_policy exact 1"
  let ?p = "(\<lambda>v. 0)(''critic/w'' := (3::real))"
  let ?x = "NDArray [1] [0]"
  let ?v = "(''critic/w'', 0::nat)"
  have n: "act_size ?c = 2"
    by (simp add: act_size_def toy_policy_def)
  have h0: "(0::int) \<le> 0 \<and> 0 < int (act_size ?c)" and h1: "(0::int) \<le> 1 \<and> 1 < int (act_size ?c)"
    using n by simp_all
  note t0 = td_error_state_value[of ?c ?p ?x 0 ?v 1]
  note t1 = td_error_state_value[of ?c ?p ?x 1 ?v 1]
  have v: "critic ?c ?p ?x ! 0 = 3"
    by (simp add: critic_row toy_policy_def)
  from t0[THEN conjunct1] have "length (critic ?c ?p ?x) = 1" .
  moreover have "one_hot 0 (act_size ?c) \<noteq> one_hot 1 (act_size ?c)"
    unfolding n by (simp add: one_hot_def d_const_def numeral_2_eq_2)
  moreover from t0[THEN conjunct2, THEN conjunct1, THEN mp, OF h0] v
  have "fst (pred_q ?c ?p ?v ?x 0) = 3" "fst (td_error ?c ?p ?v ?x 0 1) = 2"
    by simp_all
  moreover from t1[THEN conjunct2, THEN conjunct1, THEN mp, OF h1] v
  have "fst (pred_q ?c ?p ?v ?x 1) = 3" "fst (td_error ?c ?p ?v ?x 1 1) = 2"
    by simp_all
  moreover from h0 h1
  have "0 \<le> (0::int) \<and> 0 < int (act_size ?c) \<and> 0 \<le> (1::int) \<and> 1 < int (act_size ?c)"
    by (simp only: simp_thms)
  from td_error_state_value[of ?c ?p ?x 0 ?v 1 1, THEN conjunct2, THEN conjunct2, THEN mp, OF this]
  have "fst (td_error ?c ?p ?v ?x 0 1) = fst (td_error ?c ?p ?v ?x 1 1)" .
  ultimately show ?thesis using n by (simp only: simp_thms)
qed

subsection \<open>The actor's loss and the critic's variables\<close>

lemma scope_vars_prefix:
  assumes "scope_vars scope coll = Inr vars" and "v \<in> set vars"
  shows "prefix scope v"
  using assms by (auto simp: scope_vars_def Let_def split: if_splits)

lemma build_vars:
  assumes "build c coll = Inr g"
  shows "\<forall>v\<in>set (actor_vars g). prefix ''actor'' v"
    and "\<forall>v\<in>set (critic_vars g). prefix ''critic'' v"
  using assms
  by (auto simp: build_def Let_def split: sum.splits if_splits dest: scope_vars_prefix)

lemma actor_critic_prefix: "prefix ''actor'' v \<Longrightarrow> \<not> prefix ''critic'' v"
  by (auto simp: prefix_def)

lemma critic_not_actor_var:
  assumes "prefix ''critic'' v"
  shows "v \<notin> set (mlp_vars c ''actor'')"
  using assms by (auto simp: mlp_vars_def prefix_def)

lemma actor_d_tangent:
  assumes "fst \<theta> \<notin> set (mlp_vars c ''actor'')" and "d \<in> set (actor_d c p \<theta> x)"
  shows "snd d = 0"
  using assms by (auto simp: actor_d_def mlp_d_def)

lemma xent_tangent:
  assumes "\<forall>d\<in>set logits. snd d = 0" and "xent logits a = Some y"
  shows "snd y = 0"
proof -
  from assms(2) have a: "nat a < length logits"
    and y: "y = d_sub (d_log (reduce_sum (map d_exp logits))) (logits ! nat a)"
    by (auto simp: xent_def split: if_splits)
  from assms(1) have "map snd (map d_exp logits) = map (\<lambda>d. 0) logits"
    by (simp add: d_exp_def)
  then have "snd (reduce_sum (map d_exp logits)) = 0"
    by (simp add: snd_reduce_sum del: map_map)
  moreover from a assms(1) have "snd (logits ! nat a) = 0"
    by simp
  ultimately show ?thesis
    by (simp add: y d_sub_def d_log_def)
qed

lemma sequence_Some:
  assumes "sequence xs = Some ys"
  shows "\<forall>y\<in>set ys. Some y \<in> set xs"
  using assms
proof (induction xs arbitrary: ys)
  case Nil
  then show ?case by simp
next
  case (Cons x xs)
  then show ?case
    by (cases x) (auto split: option.splits)
qed

lemma reduce_mean_tangent:
  assumes "\<forall>d\<in>set xs. snd d = 0"
  shows "snd (reduce_mean xs) = 0"
proof -
  from assms have "sum_list (map snd xs) = 0"
    by (induction xs) auto
  then show ?thesis by (simp add: reduce_mean_def snd_reduce_sum)
qed

lemma loss_a_tangent:
  assumes "fst \<theta> \<notin> set (mlp_vars c ''actor'')" and "loss_a c p \<theta> f = Some d"
  shows "snd d = 0"
proof -
  let ?xs = "map (\<lambda>(x, a). xent (actor_d c p \<theta> x) a) (zip (feed_states f) (feed_actions f))"
  from assms(2) obtain ys where s: "sequence ?xs = Some ys"
    and d: "d = reduce_mean (map (\<lambda>(td, x). d_mul (stop_gradient td) x)
                               (zip (td_errors c p \<theta> f) ys))"
    by (auto simp: loss_a_def split: option.splits)
  have "snd y = 0" if "y \<in> set ys" for y
  proof -
    from sequence_Some[OF s] that have "Some y \<in> set ?xs" by blast
    then obtain x a where "xent (actor_d c p \<theta> x) a = Some y" by auto
    moreover have "\<forall>d\<in>set (actor_d c p \<theta> x). snd d = 0"
      using actor_d_tangent[OF assms(1)] by blast
    ultimately show ?thesis by (rule xent_tangent[rotated])
  qed
  then have "\<forall>e\<in>set (map (\<lambda>(td, x). d_mul (stop_gradient td) x) (zip (td_errors c p \<theta> f) ys)).
      snd e = 0"
    by (auto simp: d_mul_def stop_gradient_def dest: set_zip_rightD)
  then show ?thesis unfolding d by (rule reduce_mean_tangent)
qed

lemma apply_gradients_other:
  assumes "v \<notin> snd ` set gvs"
  shows "apply_gradients update gvs p v = p v"
  using assms unfolding apply_gradients_def
  by (induction gvs arbitrary: p) (auto simp: split_def)

lemma grads_a_vars: "snd ` set (grads_a c opt g p f) = set (actor_vars g)"
  by (auto simp: grads_a_def clip_grads_def compute_gradients_def image_iff
      split: option.splits)

text \<open>
  Claim C5. In a graph that \<^verbatim>\<open>build\<close> has constructed, the actor's and the critic's
  variable lists are disjoint; the derivative of the actor's loss with respect to any
  parameter of a critic variable is zero, for every batch on which the loss is defined;
  and the actor's training op leaves the value of every critic variable as it is.
\<close>

theorem actor_step_leaves_critic:
  assumes "build c coll = Inr g"
  shows "set (actor_vars g) \<inter> set (critic_vars g) = {}
     \<and> (\<forall>v\<in>set (critic_vars g). \<forall>i d. loss_a c p (v, i) f = Some d \<longrightarrow> snd d = 0)
     \<and> (\<forall>v\<in>set (critic_vars g). train_op_a c opt g f p v = p v)"
proof (intro conjI ballI allI impI)
  show dj: "set (actor_vars g) \<inter> set (critic_vars g) = {}"
    using build_vars[OF assms] actor_critic_prefix by blast
  fix v assume v: "v \<in> set (critic_vars g)"
  then have pv: "prefix ''critic'' v"
    using build_vars(2)[OF assms] by blast
  show "snd d = 0" if l: "loss_a c p (v, i) f = Some d" for i d
  proof -
    have "fst (v, i) \<notin> set (mlp_vars c ''actor'')"
      using critic_not_actor_var[OF pv] by simp
    from loss_a_tangent[OF this l] show ?thesis .
  qed
  from v dj have "v \<notin> snd ` set (grads_a c opt g p f)"
    unfolding grads_a_vars by blast
  then show "train_op_a c opt g f p v = p v"
    unfolding train_op_a_def by (rule apply_gradients_other)
qed

text \<open>
  On the small instance: the graph, the actor's loss and its derivative with respect to
  the critic's variable, and the critic's loss, whose derivative with respect to the same
  variable is not zero: the error term does depend on the critic, and only
  \<^verbatim>\<open>stop_gradient\<close> keeps that out of the actor's gradient.
\<close>

lemma toy_build:
  "build (toy_policy exact 1) [] =
     Inr \<lparr>global_variables = [''actor/w'', ''critic/w''], actor_vars = [''actor/w''],
          critic_vars = [''critic/w'']\<rparr>"
  by (simp add: build_def scope_vars_def mlp_vars_def toy_policy_def broadcastable_def
      act_size_def Let_def)

lemma toy_loss_a:
  "loss_a (toy_policy exact 1) (\<lambda>v. 0) (''critic/w'', 0) toy_feed = Some (ln 2, 0)"
  by (simp add: loss_a_def toy_feed_def td_errors_def td_error_def pred_q_def critic_d_row
      broadcast_mul_single one_hot_def actor_d_def mlp_d_def mlp_vars_def xent_def
      reduce_mean_def reduce_sum_def d_mul_def d_add_def d_sub_def d_abs_def d_exp_def d_log_def
      d_const_def stop_gradient_def toy_policy_def act_size_def eval_nat_numeral)

lemma toy_loss_c:
  "loss_c (toy_policy exact 1) (\<lambda>v. 0) (''critic/w'', 0) toy_feed = (1, - 2)"
  by (simp add: loss_c_def toy_feed_def td_errors_def td_error_def pred_q_def critic_d_row
      broadcast_mul_single one_hot_def mlp_vars_def d_square_def
      reduce_mean_def reduce_sum_def d_mul_def d_add_def d_sub_def d_abs_def
      d_const_def toy_policy_def act_size_def eval_nat_numeral)

theorem actor_step_leaves_critic_witness:
  "build (toy_policy exact 1) [] =
     Inr \<lparr>global_variables = [''actor/w'', ''critic/w''], actor_vars = [''actor/w''],
          critic_vars = [''critic/w'']\<rparr>
   \<and> loss_a (toy_policy exact 1) (\<lambda>v. 0) (''critic/w'', 0) toy_feed = Some (ln 2, 0)
   \<and> snd (ln 2 :: real, 0 :: real) = 0
   \<and> train_op_a (toy_policy exact 1) toy_optimizer
        \<lparr>global_variables = [''actor/w'', ''critic/w''], actor_vars = [''actor/w''],
          critic_vars = [''critic/w'']\<rparr> toy_feed (\<lambda>v. 0) ''critic/w'' = 0"
  using actor_step_leaves_critic[OF toy_build, of "\<lambda>v. 0" toy_feed toy_optimizer] toy_loss_a toy_build
  by simp

end
